theory Spec2Isabelle
  imports Complex_Main
begin

section \<open>Consumer segmentation: the clustering parameter search and its helpers\<close>

text \<open>
  The Python sources are \<^verbatim>\<open>src/cluster_engine.py\<close> (class \<^verbatim>\<open>ClusterEngine\<close>),
  \<^verbatim>\<open>src/data_preprocessor.py\<close> (class \<^verbatim>\<open>DataPreprocessor\<close>) and \<^verbatim>\<open>main.py\<close>
  (\<^verbatim>\<open>normalize_cluster_labels\<close>).

  Conventions of the embedding.
  \<^item> A feature matrix \<^verbatim>\<open>X\<close> is the list of its rows; \<^verbatim>\<open>len(X)\<close> is \<open>length X\<close>.
  \<^item> A label array is an \<open>int list\<close>; the outlier sentinel is \<open>-1\<close>.
  \<^item> scikit-learn is not part of the repository. Its estimators and metrics are
    parameters of the model: \<open>kmeans X k\<close> stands for
    \<^verbatim>\<open>KMeans(n_clusters=k, random_state=42, n_init=10).fit_predict(X)\<close>, \<open>dbscan X eps m\<close> for
    \<^verbatim>\<open>DBSCAN(eps=eps, min_samples=m).fit_predict(X)\<close>, and \<open>silhouette X labels\<close> for
    \<^verbatim>\<open>silhouette_score(X, labels)\<close>. Where the source catches what a call raises, the
    call returns an option, \<open>None\<close> when it raises.
  \<^item> Python floats are read as real numbers: scores are compared as reals, and the
    rounding and overflow of IEEE doubles are not modelled. Where the source tests for
    NaN or infinity, the entries are a datatype that has them.
\<close>

type_synonym matrix = "real list list"
type_synonym labels = "int list"

subsection \<open>Centroid partitioning: \<^verbatim>\<open>ClusterEngine.find_optimal_k\<close>\<close>

text \<open>Python's \<^verbatim>\<open>range(a, b)\<close>: the integers from \<open>a\<close> up to, but excluding, \<open>b\<close>.\<close>

definition py_range :: "int \<Rightarrow> int \<Rightarrow> int list" where
  "py_range a b = [a..b - 1]"

text \<open>
  \<^verbatim>\<open>k_values = range(k_range[0], min(k_range[1] + 1, len(X) // 2))\<close>
\<close>

definition k_values :: "int \<times> int \<Rightarrow> matrix \<Rightarrow> int list" where
  "k_values k_range X = py_range (fst k_range) (min (snd k_range + 1) (int (length X) div 2))"

text \<open>
  The body of the loop for one candidate \<open>k\<close>: the value appended to
  \<^verbatim>\<open>silhouette_scores\<close>. The sentinel \<open>-1\<close> is recorded when fewer than two distinct
  labels form (\<^verbatim>\<open>len(set(labels)) < 2\<close>) and when the \<^verbatim>\<open>try\<close> block raises.
\<close>

definition candidate_score ::
  "(matrix \<Rightarrow> int \<Rightarrow> labels option) \<Rightarrow> (matrix \<Rightarrow> labels \<Rightarrow> real option) \<Rightarrow> matrix \<Rightarrow> int \<Rightarrow> real"
where
  "candidate_score kmeans silhouette X k =
     (case kmeans X k of
        None \<Rightarrow> -1
      | Some labels \<Rightarrow>
          if length (remdups labels) < 2 then -1
          else (case silhouette X labels of None \<Rightarrow> -1 | Some score \<Rightarrow> score))"

text \<open>
  \<^verbatim>\<open>for k in k_values: ... silhouette_scores.append(...)\<close>, with the list built so far
  as the accumulator.
\<close>

fun score_loop ::
  "(matrix \<Rightarrow> int \<Rightarrow> labels option) \<Rightarrow> (matrix \<Rightarrow> labels \<Rightarrow> real option) \<Rightarrow> matrix \<Rightarrow>
   int list \<Rightarrow> real list \<Rightarrow> real list"
where
  "score_loop kmeans silhouette X [] silhouette_scores = silhouette_scores"
| "score_loop kmeans silhouette X (k # ks) silhouette_scores =
     score_loop kmeans silhouette X ks
       (silhouette_scores @ [candidate_score kmeans silhouette X k])"

text \<open>Python's \<^verbatim>\<open>max\<close> of a non-empty list.\<close>

fun py_max :: "real \<Rightarrow> real list \<Rightarrow> real" where
  "py_max m [] = m"
| "py_max m (x # xs) = py_max (if x > m then x else m) xs"

text \<open>
  \<^verbatim>\<open>np.argmax\<close> of a non-empty list \<open>x # xs\<close>: the first index that holds the maximum.
  \<open>argmax_from xs i best_i best\<close> scans \<open>xs\<close>, whose head has index \<open>i\<close>.
\<close>

fun argmax_from :: "real list \<Rightarrow> nat \<Rightarrow> nat \<Rightarrow> real \<Rightarrow> nat" where
  "argmax_from [] i best_i best = best_i"
| "argmax_from (x # xs) i best_i best =
     (if x > best then argmax_from xs (Suc i) i x else argmax_from xs (Suc i) best_i best)"

definition find_optimal_k ::
  "(matrix \<Rightarrow> int \<Rightarrow> labels option) \<Rightarrow> (matrix \<Rightarrow> labels \<Rightarrow> real option) \<Rightarrow> matrix \<Rightarrow>
   int \<times> int \<Rightarrow> int"
where
  "find_optimal_k kmeans silhouette X k_range =
     (case score_loop kmeans silhouette X (k_values k_range X) [] of
        [] \<Rightarrow> fst k_range
      | s # ss \<Rightarrow>
          if py_max s ss < 0 then fst k_range
          else k_values k_range X ! argmax_from ss 1 0 s)"


subsection \<open>Density partitioning: \<^verbatim>\<open>ClusterEngine.find_optimal_dbscan_params\<close>\<close>

text \<open>
  \<^verbatim>\<open>np.arange(start, stop, step)\<close>: \<open>ceil((stop - start) / step)\<close> values
  \<open>start + i * step\<close>, the end \<open>stop\<close> excluded.
\<close>

definition arange :: "real \<Rightarrow> real \<Rightarrow> real \<Rightarrow> real list" where
  "arange start stop step =
     map (\<lambda>i. start + real i * step) [0..<nat \<lceil>(stop - start) / step\<rceil>]"

text \<open>\<^verbatim>\<open>eps_range = np.arange(0.3, 2.0, 0.1)\<close> and \<^verbatim>\<open>min_samples_range = [3, 5, 7, 10, 15]\<close>.\<close>

definition eps_range :: "real list" where
  "eps_range = arange 0.3 2.0 0.1"

definition min_samples_range :: "nat list" where
  "min_samples_range = [3, 5, 7, 10, 15]"

text \<open>
  \<^verbatim>\<open>n_clusters = len(unique_labels) - (1 if -1 in unique_labels else 0)\<close> with
  \<^verbatim>\<open>unique_labels = set(labels)\<close>, and \<^verbatim>\<open>n_noise = list(labels).count(-1)\<close>.
\<close>

definition n_clusters_of :: "labels \<Rightarrow> nat" where
  "n_clusters_of labels = length (remdups labels) - (if -1 \<in> set labels then 1 else 0)"

definition n_noise_of :: "labels \<Rightarrow> nat" where
  "n_noise_of labels = count_list labels (-1)"

text \<open>\<^verbatim>\<open>noise_ratio = n_noise / len(labels) if len(labels) > 0 else 1.0\<close> (the search's).\<close>

definition search_noise_ratio :: "labels \<Rightarrow> real" where
  "search_noise_ratio labels =
     (if length labels > 0 then real (n_noise_of labels) / real (length labels) else 1.0)"

text \<open>
  \<^verbatim>\<open>valid_mask = labels != -1\<close>, \<^verbatim>\<open>valid_mask.sum()\<close>, and the boolean-mask selections
  \<^verbatim>\<open>X[valid_mask]\<close>, \<^verbatim>\<open>labels[valid_mask]\<close>.
\<close>

definition valid_mask :: "labels \<Rightarrow> bool list" where
  "valid_mask labels = map (\<lambda>l. l \<noteq> -1) labels"

definition mask_sum :: "bool list \<Rightarrow> nat" where
  "mask_sum bs = length (filter (\<lambda>b. b) bs)"

definition mask_select :: "bool list \<Rightarrow> 'a list \<Rightarrow> 'a list" where
  "mask_select bs xs = map snd (filter fst (zip bs xs))"

text \<open>The four \<^verbatim>\<open>best_*\<close> variables of the search and their initial values.\<close>

record search_state =
  best_score :: real
  best_eps :: real
  best_min_samples :: nat
  best_n_clusters :: nat

definition initial_state :: search_state where
  "initial_state =
     \<lparr>best_score = -1, best_eps = 0.5, best_min_samples = 5, best_n_clusters = 0\<rparr>"

text \<open>
  The body of the inner loop for one combination. \<open>dbscan\<close> is called outside the
  \<^verbatim>\<open>try\<close> block and is taken to return one label per row; a silhouette call that raises
  (\<open>None\<close>) leaves the state as it is (\<^verbatim>\<open>except: continue\<close>).
\<close>

definition dbscan_candidate ::
  "(matrix \<Rightarrow> real \<Rightarrow> nat \<Rightarrow> labels) \<Rightarrow> (matrix \<Rightarrow> labels \<Rightarrow> real option) \<Rightarrow> matrix \<Rightarrow>
   real \<Rightarrow> nat \<Rightarrow> search_state \<Rightarrow> search_state"
where
  "dbscan_candidate dbscan silhouette X eps min_samples st =
     (let labels = dbscan X eps min_samples;
          n_clusters = n_clusters_of labels;
          noise_ratio = search_noise_ratio labels
      in if n_clusters \<ge> 2 \<and> noise_ratio < 0.5 then
           (let valid = valid_mask labels
            in if mask_sum valid \<ge> n_clusters * 2 then
                 (case silhouette (mask_select valid X) (mask_select valid labels) of
                    None \<Rightarrow> st
                  | Some score \<Rightarrow>
                      if score > best_score st \<or>
                         (score = best_score st \<and> n_clusters > best_n_clusters st)
                      then \<lparr>best_score = score, best_eps = eps,
                            best_min_samples = min_samples, best_n_clusters = n_clusters\<rparr>
                      else st)
               else st)
         else st)"

text \<open>\<^verbatim>\<open>for min_samples in min_samples_range\<close> inside \<^verbatim>\<open>for eps in eps_range\<close>.\<close>

primrec min_samples_loop ::
  "(matrix \<Rightarrow> real \<Rightarrow> nat \<Rightarrow> labels) \<Rightarrow> (matrix \<Rightarrow> labels \<Rightarrow> real option) \<Rightarrow> matrix \<Rightarrow>
   real \<Rightarrow> nat list \<Rightarrow> search_state \<Rightarrow> search_state"
where
  "min_samples_loop dbscan silhouette X eps [] st = st"
| "min_samples_loop dbscan silhouette X eps (m # ms) st =
     min_samples_loop dbscan silhouette X eps ms (dbscan_candidate dbscan silhouette X eps m st)"

primrec eps_loop ::
  "(matrix \<Rightarrow> real \<Rightarrow> nat \<Rightarrow> labels) \<Rightarrow> (matrix \<Rightarrow> labels \<Rightarrow> real option) \<Rightarrow> matrix \<Rightarrow>
   real list \<Rightarrow> search_state \<Rightarrow> search_state"
where
  "eps_loop dbscan silhouette X [] st = st"
| "eps_loop dbscan silhouette X (eps # es) st =
     eps_loop dbscan silhouette X es
       (min_samples_loop dbscan silhouette X eps min_samples_range st)"

text \<open>The state after both loops, and the pair returned.\<close>

definition search_result ::
  "(matrix \<Rightarrow> real \<Rightarrow> nat \<Rightarrow> labels) \<Rightarrow> (matrix \<Rightarrow> labels \<Rightarrow> real option) \<Rightarrow> matrix \<Rightarrow>
   search_state"
where
  "search_result dbscan silhouette X = eps_loop dbscan silhouette X eps_range initial_state"

definition find_optimal_dbscan_params ::
  "(matrix \<Rightarrow> real \<Rightarrow> nat \<Rightarrow> labels) \<Rightarrow> (matrix \<Rightarrow> labels \<Rightarrow> real option) \<Rightarrow> matrix \<Rightarrow>
   real \<times> nat"
where
  "find_optimal_dbscan_params dbscan silhouette X =
     (let st = search_result dbscan silhouette X
      in if best_score st = -1 then (0.8, 5) else (best_eps st, best_min_samples st))"

text \<open>
  The spec's candidate condition on a label assignment, in the spec's words: at least two
  clusters (the outlier sentinel excluded), outlier ratio below 0.5, and at least twice as
  many non-outlier points as clusters.
\<close>

definition is_candidate :: "labels \<Rightarrow> bool" where
  "is_candidate labels \<longleftrightarrow>
     2 \<le> card (set labels - {-1}) \<and>
     search_noise_ratio labels < 1 / 2 \<and>
     2 * card (set labels - {-1}) \<le> length (filter (\<lambda>l. l \<noteq> -1) labels)"

text \<open>
  The score of a combination: \<^verbatim>\<open>silhouette_score(X[valid_mask], labels[valid_mask])\<close>,
  over the non-outlier points only.
\<close>

definition candidate_silhouette ::
  "(matrix \<Rightarrow> labels \<Rightarrow> real option) \<Rightarrow> matrix \<Rightarrow> labels \<Rightarrow> real option"
where
  "candidate_silhouette silhouette X labels =
     silhouette (mask_select (valid_mask labels) X) (mask_select (valid_mask labels) labels)"

text \<open>
  For the proofs: the pair (score, cluster count) a state holds, and the order in which
  the search compares such pairs (score first, cluster count on a tie).
\<close>

definition lex_le :: "real \<times> nat \<Rightarrow> real \<times> nat \<Rightarrow> bool" where
  "lex_le a b \<longleftrightarrow> fst a < fst b \<or> (fst a = fst b \<and> snd a \<le> snd b)"

definition state_key :: "search_state \<Rightarrow> real \<times> nat" where
  "state_key st = (best_score st, best_n_clusters st)"

subsection \<open>Partition Evaluator: \<^verbatim>\<open>ClusterEngine.calculate_metrics\<close>\<close>

text \<open>
  A value of the metrics dictionary: a Python int, a float (read as a real), or
  \<^verbatim>\<open>float('inf')\<close>.
\<close>

datatype metric_value = IntVal int | FloatVal real | PosInfVal

text \<open>
  The dictionary \<^verbatim>\<open>metrics\<close> as a map from keys to values. The three scikit-learn metrics
  are parameters; each sits in its own \<^verbatim>\<open>try\<close> block, and a call that raises (\<open>None\<close>)
  stores that metric's sentinel. The ratio stored when \<^verbatim>\<open>len(labels)\<close> is 0 is the int 0.
\<close>

definition calculate_metrics ::
  "(matrix \<Rightarrow> labels \<Rightarrow> real option) \<Rightarrow> (matrix \<Rightarrow> labels \<Rightarrow> real option) \<Rightarrow>
   (matrix \<Rightarrow> labels \<Rightarrow> real option) \<Rightarrow> matrix \<Rightarrow> labels \<Rightarrow> (string \<rightharpoonup> metric_value)"
where
  "calculate_metrics silhouette_score davies_bouldin_score calinski_harabasz_score X labels =
     (let n_clusters = n_clusters_of labels;
          n_noise = n_noise_of labels;
          metrics = Map.empty
            (''n_clusters'' \<mapsto> IntVal (int n_clusters),
             ''n_noise'' \<mapsto> IntVal (int n_noise),
             ''noise_ratio'' \<mapsto>
                (if length labels > 0 then FloatVal (real n_noise / real (length labels))
                 else IntVal 0));
          valid = valid_mask labels;
          n_valid = mask_sum valid
      in if n_clusters > 1 \<and> n_valid \<ge> n_clusters * 2 then
           metrics
             (''silhouette_score'' \<mapsto>
                (case silhouette_score (mask_select valid X) (mask_select valid labels) of
                   Some v \<Rightarrow> FloatVal v | None \<Rightarrow> FloatVal 0.0),
              ''davies_bouldin_score'' \<mapsto>
                (case davies_bouldin_score (mask_select valid X) (mask_select valid labels) of
                   Some v \<Rightarrow> FloatVal v | None \<Rightarrow> PosInfVal),
              ''calinski_harabasz_score'' \<mapsto>
                (case calinski_harabasz_score (mask_select valid X) (mask_select valid labels) of
                   Some v \<Rightarrow> FloatVal v | None \<Rightarrow> FloatVal 0.0))
         else
           metrics
             (''silhouette_score'' \<mapsto> FloatVal 0.0,
              ''davies_bouldin_score'' \<mapsto> PosInfVal,
              ''calinski_harabasz_score'' \<mapsto> FloatVal 0.0))"

subsection \<open>Label Normalizer: \<^verbatim>\<open>normalize_cluster_labels\<close> (main.py)\<close>

text \<open>\<^verbatim>\<open>np.unique(labels)\<close>: the distinct values, sorted ascending.\<close>

definition np_unique :: "labels \<Rightarrow> labels" where
  "np_unique labels = sort (remdups labels)"

text \<open>The boolean-mask assignment \<^verbatim>\<open>arr[mask] = v\<close>, on the array's contents.\<close>

definition masked_assign :: "labels \<Rightarrow> bool list \<Rightarrow> int \<Rightarrow> labels" where
  "masked_assign arr bs v = map (\<lambda>(x, b). if b then v else x) (zip arr bs)"

text \<open>
  The variables the loop updates: \<^verbatim>\<open>normalized_labels\<close>, \<^verbatim>\<open>label_mapping\<close> and
  \<^verbatim>\<open>new_label\<close>.
\<close>

record norm_state =
  normalized_labels :: labels
  label_mapping :: "int \<rightharpoonup> int"
  new_label :: int

text \<open>
  \<^verbatim>\<open>for old_label in sorted(valid_labels)\<close>: the mask \<^verbatim>\<open>labels == old_label\<close> is taken on
  the input array, the assignment goes to the copy.
\<close>

fun relabel_loop :: "labels \<Rightarrow> int list \<Rightarrow> norm_state \<Rightarrow> norm_state" where
  "relabel_loop labels [] st = st"
| "relabel_loop labels (old_label # rest) st =
     relabel_loop labels rest
       \<lparr>normalized_labels =
          masked_assign (normalized_labels st) (map (\<lambda>l. l = old_label) labels) (new_label st),
        label_mapping = (label_mapping st)(old_label \<mapsto> new_label st),
        new_label = new_label st + 1\<rparr>"

text \<open>
  The function on array contents: \<^verbatim>\<open>normalized_labels = labels.copy()\<close> starts the copy
  with the input's contents, and \<^verbatim>\<open>noise_mask.any()\<close> guards the last assignment.
\<close>

definition normalize_cluster_labels :: "labels \<Rightarrow> labels" where
  "normalize_cluster_labels labels =
     (let unique_labels = np_unique labels;
          valid_labels = filter (\<lambda>l. l \<noteq> -1) unique_labels;
          st = relabel_loop labels (sort valid_labels)
                 \<lparr>normalized_labels = labels, label_mapping = Map.empty, new_label = 1\<rparr>;
          noise_mask = map (\<lambda>l. l = -1) labels
      in if list_ex (\<lambda>b. b) noise_mask
         then masked_assign (normalized_labels st) noise_mask (new_label st)
         else normalized_labels st)"


text \<open>For the proofs: the list the loop runs over, \<^verbatim>\<open>sorted(valid_labels)\<close>.\<close>

definition valid_sorted :: "labels \<Rightarrow> int list" where
  "valid_sorted labels = sort (filter (\<lambda>l. l \<noteq> -1) (np_unique labels))"


text \<open>
  The same function with the arrays in a store, for what it mutates. A store is the list
  of the arrays allocated so far and a reference is an index into it; \<^verbatim>\<open>labels.copy()\<close>
  allocates the next index. The unique values and the masks are temporaries and stay
  values.
\<close>

type_synonym addr = nat
type_synonym heap = "labels list"

definition array_copy :: "addr \<Rightarrow> heap \<Rightarrow> addr \<times> heap" where
  "array_copy a h = (length h, h @ [h ! a])"

fun relabel_loop_heap ::
  "addr \<Rightarrow> addr \<Rightarrow> int list \<Rightarrow> heap \<Rightarrow> (int \<rightharpoonup> int) \<Rightarrow> int \<Rightarrow> heap \<times> (int \<rightharpoonup> int) \<times> int"
where
  "relabel_loop_heap labels_ref normalized_ref [] h mapping next_label =
     (h, mapping, next_label)"
| "relabel_loop_heap labels_ref normalized_ref (old_label # rest) h mapping next_label =
     relabel_loop_heap labels_ref normalized_ref rest
       (h[normalized_ref :=
            masked_assign (h ! normalized_ref) (map (\<lambda>l. l = old_label) (h ! labels_ref))
              next_label])
       (mapping(old_label \<mapsto> next_label))
       (next_label + 1)"

definition normalize_cluster_labels_heap :: "heap \<Rightarrow> addr \<Rightarrow> addr \<times> heap" where
  "normalize_cluster_labels_heap h labels_ref =
     (let unique_labels = np_unique (h ! labels_ref);
          (normalized_ref, h1) = array_copy labels_ref h;
          valid_labels = filter (\<lambda>l. l \<noteq> -1) unique_labels;
          (h2, mapping, next_label) =
             relabel_loop_heap labels_ref normalized_ref (sort valid_labels) h1 Map.empty 1;
          noise_mask = map (\<lambda>l. l = -1) (h2 ! labels_ref)
      in if list_ex (\<lambda>b. b) noise_mask
         then (normalized_ref,
               h2[normalized_ref := masked_assign (h2 ! normalized_ref) noise_mask next_label])
         else (normalized_ref, h2))"

subsection \<open>Price cleaning: \<^verbatim>\<open>DataPreprocessor.clean_price\<close>\<close>

text \<open>
  A Python \<^verbatim>\<open>str\<close> is a list of code points. Two tables of the Unicode database decide
  what \<^verbatim>\<open>str.strip()\<close>, the pattern \<^verbatim>\<open>\d\<close> and \<^verbatim>\<open>float()\<close> do; they belong to Python, not to the
  repository, and are parameters of the model: \<open>decimal ut c\<close> is the decimal value of the
  code point \<open>c\<close> when \<open>c\<close> is a decimal digit, and \<open>whitespace ut c\<close> says whether
  \<^verbatim>\<open>strip()\<close> removes \<open>c\<close>.
\<close>

type_synonym pychar = nat
type_synonym pystr = "pychar list"

record unicode_tables =
  decimal :: "pychar \<Rightarrow> nat option"
  whitespace :: "pychar \<Rightarrow> bool"

text \<open>
  The code points of an ASCII literal, and the three characters the source names.
\<close>

definition ascii :: "string \<Rightarrow> pystr" where
  "ascii s = map of_char s"

definition rupee :: pychar where
  "rupee = 8377"

definition comma :: pychar where
  "comma = 44"

definition dot :: pychar where
  "dot = 46"

text \<open>
  What \<^verbatim>\<open>\d\<close> matches.
\<close>

definition is_digit :: "unicode_tables \<Rightarrow> pychar \<Rightarrow> bool" where
  "is_digit ut c \<longleftrightarrow> decimal ut c \<noteq> None"

text \<open>
  \<^verbatim>\<open>s.replace(c, '')\<close> for a one-character \<open>c\<close>, and \<^verbatim>\<open>s.strip()\<close>.
\<close>

definition py_replace_char :: "pychar \<Rightarrow> pystr \<Rightarrow> pystr" where
  "py_replace_char c s = filter (\<lambda>x. x \<noteq> c) s"

definition py_strip :: "unicode_tables \<Rightarrow> pystr \<Rightarrow> pystr" where
  "py_strip ut s = rev (dropWhile (whitespace ut) (rev (dropWhile (whitespace ut) s)))"

text \<open>
  The leftmost match of \<^verbatim>\<open>\d+\.?\d*\<close> in \<open>s\<close> and the text after it, if there is one: the
  scan skips to the first digit, then takes the digits, one dot if it follows, and the
  digits after it. Every part is greedy and none needs backtracking, since the parts after
  \<^verbatim>\<open>\d+\<close> match the empty string.
\<close>

definition first_match :: "unicode_tables \<Rightarrow> pystr \<Rightarrow> (pystr \<times> pystr) option" where
  "first_match ut s =
     (case dropWhile (\<lambda>c. \<not> is_digit ut c) s of
        [] \<Rightarrow> None
      | c # cs \<Rightarrow>
          (let int_part = takeWhile (is_digit ut) (c # cs);
               r1 = dropWhile (is_digit ut) (c # cs);
               dot_part = (case r1 of [] \<Rightarrow> [] | d # _ \<Rightarrow> if d = dot then [d] else []);
               r2 = drop (length dot_part) r1;
               frac_part = takeWhile (is_digit ut) r2;
               r3 = dropWhile (is_digit ut) r2
           in Some (int_part @ dot_part @ frac_part, r3)))"

lemma first_match_shorter:
  assumes "first_match ut s = Some (t, r)"
  shows "length r < length s"
proof -
  from assms obtain c cs where d: "dropWhile (\<lambda>c. \<not> is_digit ut c) s = c # cs"
    by (auto simp: first_match_def split: list.splits)
  then have dc: "is_digit ut c"
    using hd_dropWhile [of "\<lambda>c. \<not> is_digit ut c" s] by simp
  let ?r1 = "dropWhile (is_digit ut) (c # cs)"
  have r1: "length ?r1 \<le> length cs" using dc by (simp add: length_dropWhile_le)
  from assms d obtain k where "r = dropWhile (is_digit ut) (drop k ?r1)"
    by (auto simp: first_match_def Let_def simp del: dropWhile.simps)
  then have "length r \<le> length ?r1"
    by (metis diff_le_self le_trans length_drop length_dropWhile_le)
  with r1 have "length r \<le> length cs" by simp
  moreover have "length (c # cs) \<le> length s"
    using d length_dropWhile_le [of "\<lambda>c. \<not> is_digit ut c" s] by simp
  ultimately show ?thesis by simp
qed

text \<open>
  \<^verbatim>\<open>re.findall(r'\d+\.?\d*', s)\<close>: the matches from left to right, without overlap.
\<close>

function findall_numbers :: "unicode_tables \<Rightarrow> pystr \<Rightarrow> pystr list" where
  "findall_numbers ut s =
     (case first_match ut s of
        None \<Rightarrow> []
      | Some (t, r) \<Rightarrow> t # findall_numbers ut r)"
  by pat_completeness auto
termination
  by (relation "measure (\<lambda>(ut, s). length s)") (auto simp: first_match_shorter)

text \<open>
  \<^verbatim>\<open>float(t)\<close> for a string \<open>t\<close> of digits with at most one dot, as the number the
  digits denote (a real: the rounding to a double is not modelled): the digits before the
  dot, plus the digits after it divided by the power of ten of their number.
\<close>

definition digits_value :: "unicode_tables \<Rightarrow> pystr \<Rightarrow> nat" where
  "digits_value ut ds = foldl (\<lambda>acc c. 10 * acc + (case decimal ut c of Some d \<Rightarrow> d | None \<Rightarrow> 0)) 0 ds"

definition py_float :: "unicode_tables \<Rightarrow> pystr \<Rightarrow> real" where
  "py_float ut t =
     (let int_part = takeWhile (is_digit ut) t;
          frac_part = drop 1 (dropWhile (is_digit ut) t)
      in real (digits_value ut int_part) + real (digits_value ut frac_part) / 10 ^ length frac_part)"

text \<open>
  The argument of \<^verbatim>\<open>clean_price\<close>: \<open>Missing\<close> when \<^verbatim>\<open>pd.isna(price_str)\<close> holds
  (\<^verbatim>\<open>None\<close>, NaN), and otherwise the text \<^verbatim>\<open>str(price_str)\<close>.
\<close>

datatype price_input = Missing | Text pystr

fun clean_price :: "unicode_tables \<Rightarrow> price_input \<Rightarrow> real" where
  "clean_price ut Missing = 0.0"
| "clean_price ut (Text price_str) =
     (let price_str = py_strip ut (py_replace_char comma (py_replace_char rupee price_str));
          numbers = findall_numbers ut price_str
      in case numbers of [] \<Rightarrow> 0.0 | n # _ \<Rightarrow> py_float ut n)"

text \<open>
  The two tables restricted to ASCII, for the examples.
\<close>

definition ascii_tables :: unicode_tables where
  "ascii_tables =
     \<lparr>decimal = (\<lambda>c. if 48 \<le> c \<and> c \<le> 57 then Some (c - 48) else None),
      whitespace = (\<lambda>c. c = 32 \<or> (9 \<le> c \<and> c \<le> 13))\<rparr>"

text \<open>
  The defining equation of \<open>findall_numbers\<close> unfolds without end; it is used by name.
\<close>

declare findall_numbers.simps [simp del]

text \<open>
  The shape of a match of the pattern \<^verbatim>\<open>\d+\.?\d*\<close>: one or more digits, then nothing
  more, or a dot and any number of digits.
\<close>

definition number_token :: "unicode_tables \<Rightarrow> pystr \<Rightarrow> bool" where
  "number_token ut t \<longleftrightarrow>
     (let int_part = takeWhile (is_digit ut) t; r = dropWhile (is_digit ut) t
      in int_part \<noteq> [] \<and> (r = [] \<or> (hd r = dot \<and> list_all (is_digit ut) (tl r))))"

text \<open>
  The spec's "already-clean numeric string", read from the spec's words and not from the
  pattern: a string with nothing left to clean, that is digits and at most one dot, with
  at least one digit. (Python's \<^verbatim>\<open>float\<close> also reads a sign and an exponent; the plainest
  numerals are enough to decide the claim.) \<open>py_float\<close> gives such a string its value.
\<close>

definition spec_clean_numeric_string :: "unicode_tables \<Rightarrow> pystr \<Rightarrow> bool" where
  "spec_clean_numeric_string ut s \<longleftrightarrow>
     list_ex (is_digit ut) s \<and>
     list_all (\<lambda>c. is_digit ut c \<or> c = dot) s \<and>
     length (filter (\<lambda>c. c = dot) s) \<le> 1"

text \<open>
  What the theorems use of the Unicode tables: the ASCII digits have their values; the
  rupee sign, the comma and the dot are no digits; no whitespace character is a digit; the
  dot is no whitespace.
\<close>

definition tables_ok :: "unicode_tables \<Rightarrow> bool" where
  "tables_ok ut \<longleftrightarrow>
     (\<forall>c. 48 \<le> c \<and> c \<le> 57 \<longrightarrow> decimal ut c = Some (c - 48)) \<and>
     decimal ut rupee = None \<and> decimal ut comma = None \<and> decimal ut dot = None \<and>
     (\<forall>c. whitespace ut c \<longrightarrow> decimal ut c = None) \<and>
     \<not> whitespace ut dot"

subsection \<open>Feature Builder: \<^verbatim>\<open>DataPreprocessor.prepare_features\<close>\<close>

text \<open>
  An entry of a numeric array: a finite float (read as a real), NaN, or an infinity. A
  cell of the profile table is a number or any other object, given by its text.
\<close>

datatype pyfloat = Finite real | NaN | PosInf | NegInf

datatype cell = NumCell pyfloat | ObjCell string

text \<open>
  The profile table is the list of its named columns. The feature matrix is kept by
  columns here (\<^verbatim>\<open>X[:, j]\<close> is the \<open>j\<close>-th list), since every step of the source works column
  by column.
\<close>

type_synonym dataframe = "(string \<times> cell list) list"

type_synonym columns = "pyfloat list list"

text \<open>
  What the function raises: the two \<^verbatim>\<open>ValueError\<close>s of the source (a mandatory column is
  absent; every column has near-zero variance), or whatever a library call raises.
\<close>

datatype py_error = MissingFeature string | ZeroVariance | Raised string

text \<open>
  \<^verbatim>\<open>np.isnan\<close>, \<^verbatim>\<open>np.isinf\<close> and their complement; \<^verbatim>\<open>fillna(0)\<close> on one entry; and
  \<^verbatim>\<open>np.nan_to_num(x, nan=0.0, posinf=0.0, neginf=0.0)\<close> on one entry.
\<close>

fun is_finite :: "pyfloat \<Rightarrow> bool" where
  "is_finite (Finite x) = True"
| "is_finite _ = False"

fun isnan :: "pyfloat \<Rightarrow> bool" where
  "isnan NaN = True"
| "isnan _ = False"

fun isinf :: "pyfloat \<Rightarrow> bool" where
  "isinf PosInf = True"
| "isinf NegInf = True"
| "isinf _ = False"

fun fillna0 :: "pyfloat \<Rightarrow> pyfloat" where
  "fillna0 NaN = Finite 0"
| "fillna0 x = x"

fun nan_to_num :: "pyfloat \<Rightarrow> pyfloat" where
  "nan_to_num (Finite x) = Finite x"
| "nan_to_num NaN = Finite 0.0"
| "nan_to_num PosInf = Finite 0.0"
| "nan_to_num NegInf = Finite 0.0"

text \<open>
  \<^verbatim>\<open>np.var(X, axis=0)\<close> on one column: the mean of the squared deviations from the mean.
  A column with a NaN or an infinite entry has variance NaN (the deviation of an infinite
  entry from an infinite mean is NaN), and so has the empty column.
\<close>

fun finite_values :: "pyfloat list \<Rightarrow> real list option" where
  "finite_values [] = Some []"
| "finite_values (Finite x # xs) = map_option ((#) x) (finite_values xs)"
| "finite_values (_ # xs) = None"

definition mean_of :: "real list \<Rightarrow> real" where
  "mean_of xs = sum_list xs / real (length xs)"

definition variance_of :: "real list \<Rightarrow> real" where
  "variance_of xs = sum_list (map (\<lambda>x. (x - mean_of xs)\<^sup>2) xs) / real (length xs)"

definition np_var :: "pyfloat list \<Rightarrow> pyfloat" where
  "np_var col =
     (case finite_values col of
        None \<Rightarrow> NaN
      | Some [] \<Rightarrow> NaN
      | Some (x # xs) \<Rightarrow> Finite (variance_of (x # xs)))"

text \<open>
  The comparison \<^verbatim>\<open>variance > 1e-8\<close>: false for NaN.
\<close>

fun float_gt :: "pyfloat \<Rightarrow> real \<Rightarrow> bool" where
  "float_gt (Finite x) y = (x > y)"
| "float_gt PosInf y = True"
| "float_gt _ y = False"

text \<open>
  What \<^verbatim>\<open>StandardScaler\<close> documents for a column: \<open>z = (x - u) / s\<close>, with \<open>u\<close> the mean and
  \<open>s\<close> the standard deviation of the column.
\<close>

definition standardize :: "real list \<Rightarrow> real list" where
  "standardize xs = map (\<lambda>x. (x - mean_of xs) / sqrt (variance_of xs)) xs"

text \<open>
  Lines 111 to 136: the table to the matrix \<^verbatim>\<open>X\<close> and its column names. pandas is not part
  of the repository: \<open>to_numeric col\<close> stands for \<^verbatim>\<open>pd.to_numeric(col, errors='coerce')\<close> and
  \<open>get_dummies col\<close> for \<^verbatim>\<open>pd.get_dummies(col, prefix='cat')\<close>, as named indicator columns.
\<close>

definition feature_matrix ::
  "(cell list \<Rightarrow> pyfloat list) \<Rightarrow> (cell list \<Rightarrow> (string \<times> pyfloat list) list) \<Rightarrow>
   dataframe \<Rightarrow> py_error + (columns \<times> string list)"
where
  "feature_matrix to_numeric get_dummies df =
     (case map_of df ''avg_price'' of
        None \<Rightarrow> Inl (MissingFeature ''avg_price'')
      | Some avg_price \<Rightarrow>
     (case map_of df ''avg_discount'' of
        None \<Rightarrow> Inl (MissingFeature ''avg_discount'')
      | Some avg_discount \<Rightarrow>
          (let required =
                 [map fillna0 (to_numeric avg_price), map fillna0 (to_numeric avg_discount)];
               required_features = [''avg_price'', ''avg_discount''];
               (df_work, feature_names) =
                 (case map_of df ''favorite_category'' of
                    Some favorite_category \<Rightarrow>
                      (let category_dummies = get_dummies favorite_category
                       in (required @ map snd category_dummies,
                           required_features @ map fst category_dummies))
                  | None \<Rightarrow> (required, required_features))
           in Inr (map (map fillna0) df_work, feature_names))))"

text \<open>
  Lines 138 to 161: the variance filter, the scaling and the repair of NaN and infinite
  entries. \<open>scaler X\<close> stands for \<^verbatim>\<open>StandardScaler().fit_transform(X)\<close>.
\<close>

definition prepare_features ::
  "(cell list \<Rightarrow> pyfloat list) \<Rightarrow> (cell list \<Rightarrow> (string \<times> pyfloat list) list) \<Rightarrow>
   (columns \<Rightarrow> py_error + columns) \<Rightarrow> dataframe \<Rightarrow> py_error + (columns \<times> string list)"
where
  "prepare_features to_numeric get_dummies scaler df =
     (case feature_matrix to_numeric get_dummies df of
        Inl e \<Rightarrow> Inl e
      | Inr (X, feature_names) \<Rightarrow>
          (let variance = map np_var X;
               valid_features = map (\<lambda>v. float_gt v (1 / 10 ^ 8)) variance
           in if mask_sum valid_features = 0 then Inl ZeroVariance
              else
                (case scaler (mask_select valid_features X) of
                   Inl e \<Rightarrow> Inl e
                 | Inr X_scaled \<Rightarrow>
                     Inr (if list_ex (list_ex isnan) X_scaled \<or> list_ex (list_ex isinf) X_scaled
                          then map (map nan_to_num) X_scaled
                          else X_scaled,
                          mask_select valid_features feature_names))))"


text \<open>
  What the variance half of the claim uses of scikit-learn: on columns of finite entries
  whose variance is above \<open>1e-8\<close>, the scaler computes the documented transform.
\<close>

definition scaler_standardizes :: "(columns \<Rightarrow> py_error + columns) \<Rightarrow> bool" where
  "scaler_standardizes scaler \<longleftrightarrow>
     (\<forall>R. R \<noteq> [] \<and> (\<forall>r \<in> set R. 1 / 10 ^ 8 < variance_of r) \<longrightarrow>
          scaler (map (map Finite) R) = Inr (map (\<lambda>r. map Finite (standardize r)) R))"


text \<open>
  For the examples: a coercion, two indicator columns, the exact scaler, and a table of
  two consumers whose discount column is constant.
\<close>

definition example_to_numeric :: "cell list \<Rightarrow> pyfloat list" where
  "example_to_numeric cs = map (\<lambda>c. case c of NumCell x \<Rightarrow> x | ObjCell s \<Rightarrow> NaN) cs"

definition example_get_dummies :: "cell list \<Rightarrow> (string \<times> pyfloat list) list" where
  "example_get_dummies cs =
     map (\<lambda>v. (''cat_'' @ v, map (\<lambda>c. if c = ObjCell v then Finite 1 else Finite 0) cs))
       [''Home'', ''Toys'']"

definition exact_scaler :: "columns \<Rightarrow> py_error + columns" where
  "exact_scaler X =
     Inr (map (\<lambda>col. case finite_values col of
                        Some r \<Rightarrow> map Finite (standardize r)
                      | None \<Rightarrow> col) X)"

definition example_profiles :: dataframe where
  "example_profiles =
     [(''user_id'', [ObjCell ''u1'', ObjCell ''u2'']),
      (''avg_price'', [NumCell (Finite 1), NumCell (Finite 3)]),
      (''avg_discount'', [NumCell (Finite 5), NumCell (Finite 5)]),
      (''favorite_category'', [ObjCell ''Home'', ObjCell ''Toys''])]"

section \<open>Properties\<close>

subsection \<open>Centroid partitioning\<close>

lemma set_py_range: "set (py_range a b) = {k. a \<le> k \<and> k < b}"
  by (auto simp: py_range_def)

lemma score_loop_map:
  "score_loop kmeans silhouette X ks acc = acc @ map (candidate_score kmeans silhouette X) ks"
  by (induction ks arbitrary: acc) simp_all

lemma py_max_upper: "m < b \<Longrightarrow> \<forall>x \<in> set xs. x < b \<Longrightarrow> py_max m xs < b"
  by (induction xs arbitrary: m) auto






text \<open>
  Claim C7. If every evaluated candidate scored below 0 (the sentinel \<open>-1\<close> included),
  \<^verbatim>\<open>find_optimal_k\<close> returns \<^verbatim>\<open>k_range[0]\<close>, which is a lower bound of the candidates and,
  when there is a candidate at all, the smallest of them.
\<close>

theorem find_optimal_k_fallback:
  assumes "\<forall>k \<in> set (k_values k_range X). candidate_score kmeans silhouette X k < 0"
  shows "find_optimal_k kmeans silhouette X k_range = fst k_range \<and>
         (\<forall>k \<in> set (k_values k_range X). fst k_range \<le> k) \<and>
         (k_values k_range X \<noteq> [] \<longrightarrow> fst k_range \<in> set (k_values k_range X))"
proof -
  have a: "find_optimal_k kmeans silhouette X k_range = fst k_range"
  proof (cases "k_values k_range X")
    case Nil
    then show ?thesis by (simp add: find_optimal_k_def)
  next
    case (Cons k ks)
    let ?f = "candidate_score kmeans silhouette X"
    from assms Cons have "?f k < 0" and "\<forall>x \<in> set (map ?f ks). x < 0" by simp_all
    then have "py_max (?f k) (map ?f ks) < 0" by (rule py_max_upper)
    then show ?thesis by (simp add: find_optimal_k_def score_loop_map Cons)
  qed
  have b: "\<forall>k \<in> set (k_values k_range X). fst k_range \<le> k"
    by (simp add: k_values_def set_py_range)
  have c: "k_values k_range X \<noteq> [] \<longrightarrow> fst k_range \<in> set (k_values k_range X)"
    by (auto simp: k_values_def py_range_def)
  from a b c show ?thesis by blast
qed

text \<open>
  Ten rows; k-means puts every row in one cluster for \<open>k = 2\<close>, raises for \<open>k = 3\<close>, and
  gives two clusters with silhouette \<open>-1/4\<close> for \<open>k = 4\<close>: every score is negative and the
  smallest candidate, 2, is returned.
\<close>

theorem find_optimal_k_fallback_witness:
  "k_values (2, 10) (replicate 10 [0]) = [2, 3, 4] \<and>
   map (candidate_score
          (\<lambda>X k. if k = 2 then Some (replicate (length X) 0)
                  else if k = 3 then None else Some (map (\<lambda>i. int i mod 2) [0..<length X]))
          (\<lambda>X labels. Some (- 1 / 4)) (replicate 10 [0])) [2, 3, 4] = [-1, -1, - 1 / 4] \<and>
   find_optimal_k
     (\<lambda>X k. if k = 2 then Some (replicate (length X) 0)
             else if k = 3 then None else Some (map (\<lambda>i. int i mod 2) [0..<length X]))
     (\<lambda>X labels. Some (- 1 / 4)) (replicate 10 [0]) (2, 10) = 2"
proof -
  let ?km = "\<lambda>(X::matrix) (k::int). if k = 2 then Some (replicate (length X) (0::int))
                  else if k = 3 then None else Some (map (\<lambda>i. int i mod 2) [0..<length X])"
  let ?sil = "\<lambda>(X::matrix) (labels::labels). Some (- 1 / 4 :: real)"
  have ks: "k_values (2, 10) (replicate 10 [0]) = [2, 3, 4]"
    by (simp add: k_values_def py_range_def upto.simps)
  have sc: "map (candidate_score ?km ?sil (replicate 10 [0])) [2, 3, 4] = [-1, -1, - 1 / 4]"
    by (simp add: candidate_score_def upt_rec eval_nat_numeral)
  have h: "\<forall>k \<in> set (k_values (2, 10) (replicate 10 [0])).
              candidate_score ?km ?sil (replicate 10 [0]) k < 0"
    using sc unfolding ks by simp
  from find_optimal_k_fallback [OF h] ks sc show ?thesis by simp
qed

subsection \<open>Density partitioning\<close>

lemma n_clusters_of_card: "n_clusters_of labels = card (set labels - {-1})"
  by (simp add: n_clusters_of_def card_Diff_singleton_if length_remdups_card_conv)

lemma mask_sum_valid: "mask_sum (valid_mask labels) = length (filter (\<lambda>l. l \<noteq> -1) labels)"
  by (simp add: mask_sum_def valid_mask_def filter_map o_def)

lemma dbscan_candidate_skip:
  "\<not> is_candidate (dbscan X eps m) \<Longrightarrow> dbscan_candidate dbscan silhouette X eps m st = st"
  by (auto simp: dbscan_candidate_def is_candidate_def Let_def n_clusters_of_card mask_sum_valid)

lemma dbscan_candidate_raise:
  "candidate_silhouette silhouette X (dbscan X eps m) = None \<Longrightarrow>
   dbscan_candidate dbscan silhouette X eps m st = st"
  by (simp add: dbscan_candidate_def candidate_silhouette_def Let_def)

lemma dbscan_candidate_scored:
  "is_candidate (dbscan X eps m) \<Longrightarrow>
   candidate_silhouette silhouette X (dbscan X eps m) = Some s \<Longrightarrow>
   dbscan_candidate dbscan silhouette X eps m st =
     (if best_score st < s \<or> (s = best_score st \<and> best_n_clusters st < n_clusters_of (dbscan X eps m))
      then \<lparr>best_score = s, best_eps = eps, best_min_samples = m,
            best_n_clusters = n_clusters_of (dbscan X eps m)\<rparr>
      else st)"
  by (simp add: dbscan_candidate_def is_candidate_def candidate_silhouette_def Let_def
      n_clusters_of_card mask_sum_valid mult.commute)

lemma lex_le_refl: "lex_le a a"
  by (simp add: lex_le_def)

lemma lex_le_trans: "lex_le a b \<Longrightarrow> lex_le b c \<Longrightarrow> lex_le a c"
  by (auto simp: lex_le_def)

lemma dbscan_candidate_mono:
  "lex_le (state_key st) (state_key (dbscan_candidate dbscan silhouette X eps m st))"
proof (cases "is_candidate (dbscan X eps m)")
  case False
  then show ?thesis by (simp add: dbscan_candidate_skip lex_le_refl)
next
  case True
  show ?thesis
  proof (cases "candidate_silhouette silhouette X (dbscan X eps m)")
    case None
    then show ?thesis by (simp add: dbscan_candidate_raise lex_le_refl)
  next
    case (Some s)
    show ?thesis
      using dbscan_candidate_scored
        [where dbscan = dbscan and silhouette = silhouette and X = X and eps = eps
           and m = m and s = s and st = st] True Some
      by (simp add: lex_le_def state_key_def)
  qed
qed

lemma dbscan_candidate_ge:
  assumes "is_candidate (dbscan X eps m)"
    and "candidate_silhouette silhouette X (dbscan X eps m) = Some s"
  shows "lex_le (s, n_clusters_of (dbscan X eps m))
           (state_key (dbscan_candidate dbscan silhouette X eps m st))"
  using dbscan_candidate_scored
    [where dbscan = dbscan and silhouette = silhouette and X = X and eps = eps
       and m = m and s = s and st = st] assms
  by (auto simp: lex_le_def state_key_def)

lemma min_samples_loop_fold:
  "min_samples_loop dbscan silhouette X eps ms st =
   fold (\<lambda>(e, m). dbscan_candidate dbscan silhouette X e m) (map (Pair eps) ms) st"
  by (induction ms arbitrary: st) simp_all

lemma eps_loop_fold:
  "eps_loop dbscan silhouette X es st =
   fold (\<lambda>(e, m). dbscan_candidate dbscan silhouette X e m) (List.product es min_samples_range) st"
  by (induction es arbitrary: st) (simp_all add: min_samples_loop_fold)

lemma fold_mono:
  "lex_le (state_key st)
     (state_key (fold (\<lambda>(e, m). dbscan_candidate dbscan silhouette X e m) cs st))"
proof (induction cs arbitrary: st)
  case Nil
  show ?case by (simp add: lex_le_refl)
next
  case (Cons c cs)
  obtain e m where c: "c = (e, m)" by (cases c)
  show ?case
    using lex_le_trans [OF dbscan_candidate_mono Cons.IH] by (simp add: c)
qed

lemma fold_ge:
  assumes "(eps, m) \<in> set cs"
    and "is_candidate (dbscan X eps m)"
    and "candidate_silhouette silhouette X (dbscan X eps m) = Some s"
  shows "lex_le (s, n_clusters_of (dbscan X eps m))
     (state_key (fold (\<lambda>(e, m). dbscan_candidate dbscan silhouette X e m) cs st))"
  using assms(1)
proof (induction cs arbitrary: st)
  case Nil
  then show ?case by simp
next
  case (Cons c cs)
  show ?case
  proof (cases "c = (eps, m)")
    case True
    have "lex_le (s, n_clusters_of (dbscan X eps m))
        (state_key (dbscan_candidate dbscan silhouette X eps m st))"
      using assms(2,3) by (rule dbscan_candidate_ge)
    then show ?thesis
      using fold_mono lex_le_trans by (simp add: True)
  next
    case False
    with Cons.prems have "(eps, m) \<in> set cs" by simp
    from Cons.IH [OF this] show ?thesis by (cases c) simp
  qed
qed

lemma fold_origin:
  "fold (\<lambda>(e, m). dbscan_candidate dbscan silhouette X e m) cs st = st \<or>
   (\<exists>(eps, m) \<in> set cs. is_candidate (dbscan X eps m) \<and>
      (\<exists>s. candidate_silhouette silhouette X (dbscan X eps m) = Some s \<and>
        fold (\<lambda>(e, m). dbscan_candidate dbscan silhouette X e m) cs st =
          \<lparr>best_score = s, best_eps = eps, best_min_samples = m,
           best_n_clusters = n_clusters_of (dbscan X eps m)\<rparr>))"
proof (induction cs arbitrary: st)
  case Nil
  show ?case by simp
next
  case (Cons c cs)
  obtain e m where c: "c = (e, m)" by (cases c)
  let ?st' = "dbscan_candidate dbscan silhouette X e m st"
  have step: "?st' = st \<or> (is_candidate (dbscan X e m) \<and>
      (\<exists>s. candidate_silhouette silhouette X (dbscan X e m) = Some s \<and>
        ?st' = \<lparr>best_score = s, best_eps = e, best_min_samples = m,
           best_n_clusters = n_clusters_of (dbscan X e m)\<rparr>))"
  proof (cases "is_candidate (dbscan X e m)")
    case False
    then show ?thesis by (simp add: dbscan_candidate_skip)
  next
    case True
    show ?thesis
    proof (cases "candidate_silhouette silhouette X (dbscan X e m)")
      case None
      then show ?thesis by (simp add: dbscan_candidate_raise)
    next
      case (Some s)
      show ?thesis
        using dbscan_candidate_scored
          [where dbscan = dbscan and silhouette = silhouette and X = X and eps = e
             and m = m and s = s and st = st] True Some
        by simp
    qed
  qed
  from Cons.IH [of ?st'] step show ?case
    by (auto simp: c)
qed

text \<open>
  Claim C2. A combination whose label assignment is not a candidate (fewer than two
  clusters, or outlier ratio not below 0.5, or fewer non-outlier points than twice the
  cluster count) leaves the search state as it is, whatever the scoring function. A
  candidate scored \<open>s\<close> replaces the kept combination exactly when \<open>s\<close> is strictly higher
  than the kept score, or equal to it with more clusters. After the whole grid, no scored
  combination of the grid has a higher score than the kept one, nor the same score with
  more clusters, and the kept combination is the initial one or a scored combination of
  the grid.
\<close>

theorem dbscan_search_scores_candidates_and_keeps_best:
  "(\<not> is_candidate (dbscan X eps' m') \<longrightarrow>
      dbscan_candidate dbscan silhouette X eps' m' st' = st') \<and>
   (is_candidate (dbscan X eps m) \<and>
    candidate_silhouette silhouette X (dbscan X eps m) = Some s \<longrightarrow>
      dbscan_candidate dbscan silhouette X eps m st =
        (if best_score st < s \<or>
            (s = best_score st \<and> best_n_clusters st < n_clusters_of (dbscan X eps m))
         then \<lparr>best_score = s, best_eps = eps, best_min_samples = m,
               best_n_clusters = n_clusters_of (dbscan X eps m)\<rparr>
         else st)) \<and>
   (eps \<in> set eps_range \<and> m \<in> set min_samples_range \<and> is_candidate (dbscan X eps m) \<and>
    candidate_silhouette silhouette X (dbscan X eps m) = Some s \<longrightarrow>
      s < best_score (search_result dbscan silhouette X) \<or>
      (s = best_score (search_result dbscan silhouette X) \<and>
       n_clusters_of (dbscan X eps m) \<le> best_n_clusters (search_result dbscan silhouette X))) \<and>
   (search_result dbscan silhouette X = initial_state \<or>
    (\<exists>e \<in> set eps_range. \<exists>k \<in> set min_samples_range.
       is_candidate (dbscan X e k) \<and>
       candidate_silhouette silhouette X (dbscan X e k) =
         Some (best_score (search_result dbscan silhouette X)) \<and>
       search_result dbscan silhouette X =
         \<lparr>best_score = best_score (search_result dbscan silhouette X), best_eps = e,
          best_min_samples = k, best_n_clusters = n_clusters_of (dbscan X e k)\<rparr>))"
proof -
  let ?grid = "List.product eps_range min_samples_range"
  let ?final = "search_result dbscan silhouette X"
  have final: "?final = fold (\<lambda>(e, m). dbscan_candidate dbscan silhouette X e m) ?grid initial_state"
    by (simp add: search_result_def eps_loop_fold)
  have a: "\<not> is_candidate (dbscan X eps' m') \<longrightarrow>
      dbscan_candidate dbscan silhouette X eps' m' st' = st'"
    by (simp add: dbscan_candidate_skip)
  have b: "is_candidate (dbscan X eps m) \<and>
    candidate_silhouette silhouette X (dbscan X eps m) = Some s \<longrightarrow>
      dbscan_candidate dbscan silhouette X eps m st =
        (if best_score st < s \<or>
            (s = best_score st \<and> best_n_clusters st < n_clusters_of (dbscan X eps m))
         then \<lparr>best_score = s, best_eps = eps, best_min_samples = m,
               best_n_clusters = n_clusters_of (dbscan X eps m)\<rparr>
         else st)"
    using dbscan_candidate_scored
      [where dbscan = dbscan and silhouette = silhouette and X = X and eps = eps
         and m = m and s = s and st = st]
    by blast
  have c: "eps \<in> set eps_range \<and> m \<in> set min_samples_range \<and> is_candidate (dbscan X eps m) \<and>
    candidate_silhouette silhouette X (dbscan X eps m) = Some s \<longrightarrow>
      s < best_score ?final \<or>
      (s = best_score ?final \<and> n_clusters_of (dbscan X eps m) \<le> best_n_clusters ?final)"
  proof
    assume h: "eps \<in> set eps_range \<and> m \<in> set min_samples_range \<and>
      is_candidate (dbscan X eps m) \<and>
      candidate_silhouette silhouette X (dbscan X eps m) = Some s"
    then have "(eps, m) \<in> set ?grid" by simp
    moreover from h have "is_candidate (dbscan X eps m)"
      and "candidate_silhouette silhouette X (dbscan X eps m) = Some s" by simp_all
    ultimately have "lex_le (s, n_clusters_of (dbscan X eps m))
      (state_key (fold (\<lambda>(e, m). dbscan_candidate dbscan silhouette X e m) ?grid initial_state))"
      by (rule fold_ge)
    then show "s < best_score ?final \<or>
      (s = best_score ?final \<and> n_clusters_of (dbscan X eps m) \<le> best_n_clusters ?final)"
      by (simp add: final lex_le_def state_key_def)
  qed
  have d: "?final = initial_state \<or>
    (\<exists>e \<in> set eps_range. \<exists>k \<in> set min_samples_range.
       is_candidate (dbscan X e k) \<and>
       candidate_silhouette silhouette X (dbscan X e k) = Some (best_score ?final) \<and>
       ?final = \<lparr>best_score = best_score ?final, best_eps = e,
          best_min_samples = k, best_n_clusters = n_clusters_of (dbscan X e k)\<rparr>)"
  proof -
    from fold_origin [of dbscan silhouette X ?grid initial_state]
    consider "?final = initial_state"
      | e k s' where "(e, k) \<in> set ?grid" and "is_candidate (dbscan X e k)"
          and "candidate_silhouette silhouette X (dbscan X e k) = Some s'"
          and "?final = \<lparr>best_score = s', best_eps = e, best_min_samples = k,
                 best_n_clusters = n_clusters_of (dbscan X e k)\<rparr>"
      unfolding final [symmetric] by blast
    then show ?thesis
    proof cases
      case 1
      then show ?thesis by simp
    next
      case 2
      from 2(4) have "best_score ?final = s'" by simp
      with 2 have "e \<in> set eps_range \<and> k \<in> set min_samples_range \<and>
        is_candidate (dbscan X e k) \<and>
        candidate_silhouette silhouette X (dbscan X e k) = Some (best_score ?final) \<and>
        ?final = \<lparr>best_score = best_score ?final, best_eps = e,
          best_min_samples = k, best_n_clusters = n_clusters_of (dbscan X e k)\<rparr>"
        by simp
      then show ?thesis by blast
    qed
  qed
  from a b c d show ?thesis by blast
qed

text \<open>
  Six rows; DBSCAN gives two clusters for \<open>min_samples = 3\<close>, three for \<open>5\<close> and only
  outliers otherwise; every silhouette is \<open>1/2\<close>. The tie goes to the three clusters, and
  the first radius keeps its place.
\<close>

theorem dbscan_search_scores_candidates_and_keeps_best_witness:
  "\<not> is_candidate [-1, -1, -1, -1, -1, -1] \<and>
   dbscan_candidate
     (\<lambda>X eps m. if m = 3 then [0, 0, 0, 1, 1, 1] else if m = 5 then [0, 0, 1, 1, 2, 2]
                 else replicate (length X) (-1))
     (\<lambda>X labels. Some (1 / 2)) (replicate 6 [0]) (3 / 10) 7 initial_state = initial_state \<and>
   is_candidate [0, 0, 0, 1, 1, 1] \<and>
   3 / 10 \<in> set eps_range \<and> 3 \<in> set min_samples_range \<and>
   dbscan_candidate
     (\<lambda>X eps m. if m = 3 then [0, 0, 0, 1, 1, 1] else if m = 5 then [0, 0, 1, 1, 2, 2]
                 else replicate (length X) (-1))
     (\<lambda>X labels. Some (1 / 2)) (replicate 6 [0]) (3 / 10) 3 initial_state =
     \<lparr>best_score = 1 / 2, best_eps = 3 / 10, best_min_samples = 3, best_n_clusters = 2\<rparr> \<and>
   search_result
     (\<lambda>X eps m. if m = 3 then [0, 0, 0, 1, 1, 1] else if m = 5 then [0, 0, 1, 1, 2, 2]
                 else replicate (length X) (-1))
     (\<lambda>X labels. Some (1 / 2)) (replicate 6 [0]) =
     \<lparr>best_score = 1 / 2, best_eps = 3 / 10, best_min_samples = 5, best_n_clusters = 3\<rparr>"
proof -
  let ?D = "\<lambda>(X::matrix) (eps::real) (m::nat).
     if m = 3 then [0, 0, 0, 1, 1, 1] else if m = 5 then [0, 0, 1, 1, 2, 2]
     else replicate (length X) (-1::int)"
  let ?S = "\<lambda>(X::matrix) (labels::labels). Some (1 / 2 :: real)"
  let ?X = "replicate 6 [0::real]"
  have n: "\<not> is_candidate [-1, -1, -1, -1, -1, -1]"
    by (simp add: is_candidate_def)
  have y: "is_candidate [0, 0, 0, 1, 1, 1]"
    by (simp add: is_candidate_def search_noise_ratio_def n_noise_of_def)
  have y2: "is_candidate [0, 0, 1, 1, 2, 2]"
    by (simp add: is_candidate_def search_noise_ratio_def n_noise_of_def)
  have e: "3 / 10 \<in> set eps_range"
    by (simp add: eps_range_def arange_def upt_rec)
  have m: "3 \<in> set min_samples_range"
    by (simp add: min_samples_range_def)
  have D7: "?D ?X (3 / 10) 7 = [-1, -1, -1, -1, -1, -1]"
    by (simp add: eval_nat_numeral)
  have D3: "?D ?X (3 / 10) 3 = [0, 0, 0, 1, 1, 1]"
    by simp
  have nc: "n_clusters_of [0, 0, 0, 1, 1, 1] = 2"
    by (simp add: n_clusters_of_def)
  note inst = dbscan_search_scores_candidates_and_keeps_best
    [where dbscan = ?D and silhouette = ?S and X = ?X and eps' = "3 / 10" and m' = 7
       and st' = initial_state and eps = "3 / 10" and m = 3 and st = initial_state
       and s = "1 / 2"]
  have step0: "dbscan_candidate ?D ?S ?X (3 / 10) 7 initial_state = initial_state"
    using inst n unfolding D7 by blast
  have step1: "dbscan_candidate ?D ?S ?X (3 / 10) 3 initial_state =
     \<lparr>best_score = 1 / 2, best_eps = 3 / 10, best_min_samples = 3, best_n_clusters = 2\<rparr>"
    using inst y unfolding D3 by (simp add: candidate_silhouette_def initial_state_def nc)
  have fin: "search_result ?D ?S ?X =
     \<lparr>best_score = 1 / 2, best_eps = 3 / 10, best_min_samples = 5, best_n_clusters = 3\<rparr>"
    by (simp add: search_result_def eps_range_def arange_def upt_rec min_samples_range_def
        dbscan_candidate_def initial_state_def n_clusters_of_def search_noise_ratio_def
        n_noise_of_def valid_mask_def mask_sum_def eval_nat_numeral)
  from n step0 y e m step1 fin show ?thesis by blast
qed

text \<open>
  Claim C5, as amended. The grid is the 17 radii 0.3, 0.4, ..., 1.9 (\<^verbatim>\<open>np.arange\<close> excludes
  its end 2.0) crossed with the minimum-neighbor-counts 3, 5, 7, 10, 15: 85 combinations,
  and the search is the loop body run over exactly these, radius-major.
\<close>

theorem dbscan_grid:
  "eps_range = [3 / 10, 4 / 10, 5 / 10, 6 / 10, 7 / 10, 8 / 10, 9 / 10, 1, 11 / 10, 12 / 10,
                13 / 10, 14 / 10, 15 / 10, 16 / 10, 17 / 10, 18 / 10, 19 / 10] \<and>
   min_samples_range = [3, 5, 7, 10, 15] \<and>
   length (List.product eps_range min_samples_range) = 85 \<and>
   search_result dbscan silhouette X =
     fold (\<lambda>(eps, min_samples). dbscan_candidate dbscan silhouette X eps min_samples)
       (List.product eps_range min_samples_range) initial_state"
proof -
  have e: "eps_range = [3 / 10, 4 / 10, 5 / 10, 6 / 10, 7 / 10, 8 / 10, 9 / 10, 1, 11 / 10,
             12 / 10, 13 / 10, 14 / 10, 15 / 10, 16 / 10, 17 / 10, 18 / 10, 19 / 10]"
    by (simp add: eps_range_def arange_def upt_rec)
  have m: "min_samples_range = [3, 5, 7, 10, 15]"
    by (simp add: min_samples_range_def)
  have l: "length (List.product eps_range min_samples_range) = 85"
    unfolding e m by (simp add: length_product)
  have f: "search_result dbscan silhouette X =
     fold (\<lambda>(eps, min_samples). dbscan_candidate dbscan silhouette X eps min_samples)
       (List.product eps_range min_samples_range) initial_state"
    by (simp add: search_result_def eps_loop_fold)
  from e m l f show ?thesis by blast
qed

text \<open>Claim C5 as stated fails: the radius 2.0 is not among the radii tried.\<close>

theorem dbscan_grid_radius_two_counterexample:
  "(2::real) \<notin> set eps_range \<and> length eps_range = 17 \<and> last eps_range = 19 / 10"
  by (simp add: eps_range_def arange_def upt_rec)

text \<open>
  Claim C6. If no combination of the grid is scored (each one is not a candidate, or its
  silhouette call raises), the search returns exactly radius 0.8 and
  minimum-neighbor-count 5.
\<close>

theorem dbscan_search_fallback:
  assumes "\<forall>eps \<in> set eps_range. \<forall>m \<in> set min_samples_range.
             \<not> is_candidate (dbscan X eps m) \<or>
             candidate_silhouette silhouette X (dbscan X eps m) = None"
  shows "find_optimal_dbscan_params dbscan silhouette X = (8 / 10, 5)"
proof -
  have step: "dbscan_candidate dbscan silhouette X eps m st = st"
    if "(eps, m) \<in> set (List.product eps_range min_samples_range)" for eps m st
  proof -
    from that assms have "\<not> is_candidate (dbscan X eps m) \<or>
       candidate_silhouette silhouette X (dbscan X eps m) = None"
      by simp
    then show ?thesis
      using dbscan_candidate_skip dbscan_candidate_raise by blast
  qed
  have "fold (\<lambda>(e, m). dbscan_candidate dbscan silhouette X e m) cs st = st"
    if "set cs \<subseteq> set (List.product eps_range min_samples_range)" for cs st
    using that
  proof (induction cs arbitrary: st)
    case Nil
    show ?case by simp
  next
    case (Cons c cs)
    obtain e m where c: "c = (e, m)" by (cases c)
    from Cons.prems c have "(e, m) \<in> set (List.product eps_range min_samples_range)"
      by simp
    then have "dbscan_candidate dbscan silhouette X e m st = st" by (rule step)
    moreover from Cons.prems have "set cs \<subseteq> set (List.product eps_range min_samples_range)"
      by simp
    ultimately show ?case using Cons.IH by (simp add: c)
  qed
  then have "search_result dbscan silhouette X = initial_state"
    by (simp add: search_result_def eps_loop_fold)
  then show ?thesis
    by (simp add: find_optimal_dbscan_params_def initial_state_def)
qed

text \<open>
  Six rows; DBSCAN gives two clusters for \<open>min_samples = 3\<close>, where the silhouette call
  raises, and only outliers otherwise.
\<close>

theorem dbscan_search_fallback_witness:
  "is_candidate [0, 0, 0, 1, 1, 1] \<and> \<not> is_candidate [-1, -1, -1, -1, -1, -1] \<and>
   find_optimal_dbscan_params
     (\<lambda>X eps m. if m = 3 then [0, 0, 0, 1, 1, 1] else replicate (length X) (-1))
     (\<lambda>X labels. if length labels = 6 then None else Some (1 / 2))
     (replicate 6 [0]) = (8 / 10, 5)"
proof -
  let ?D = "\<lambda>(X::matrix) (eps::real) (m::nat).
     if m = 3 then [0, 0, 0, 1, 1, 1] else replicate (length X) (-1::int)"
  let ?S = "\<lambda>(X::matrix) (labels::labels). if length labels = 6 then None else Some (1 / 2 :: real)"
  let ?X = "replicate 6 [0::real]"
  have n: "\<not> is_candidate [-1, -1, -1, -1, -1, -1]"
    by (simp add: is_candidate_def)
  have y: "is_candidate [0, 0, 0, 1, 1, 1]"
    by (simp add: is_candidate_def search_noise_ratio_def n_noise_of_def)
  have h: "\<forall>eps \<in> set eps_range. \<forall>m \<in> set min_samples_range.
             \<not> is_candidate (?D ?X eps m) \<or> candidate_silhouette ?S ?X (?D ?X eps m) = None"
  proof (intro ballI)
    fix eps :: real and m :: nat
    show "\<not> is_candidate (?D ?X eps m) \<or> candidate_silhouette ?S ?X (?D ?X eps m) = None"
    proof (cases "m = 3")
      case True
      then show ?thesis
        by (simp add: candidate_silhouette_def mask_select_def valid_mask_def)
    next
      case False
      then show ?thesis using n by (simp add: eval_nat_numeral)
    qed
  qed
  from dbscan_search_fallback [of ?D ?X ?S, OF h] n y show ?thesis by blast
qed

subsection \<open>Partition Evaluator\<close>

text \<open>
  Claim C3. When the viability condition fails (fewer than two distinct non-outlier
  labels, or fewer non-outlier rows than twice the cluster count), \<^verbatim>\<open>calculate_metrics\<close>
  stores silhouette 0.0, Davies-Bouldin \<open>+\<infinity>\<close> and Calinski-Harabasz 0.0; and in every
  case the result holds \<^verbatim>\<open>n_clusters\<close> (the outlier sentinel excluded), \<^verbatim>\<open>n_noise\<close> and
  \<^verbatim>\<open>noise_ratio\<close>, beside the three scores.
\<close>

theorem calculate_metrics_sentinels_and_counts:
  "(card (set labels - {-1}) < 2 \<or>
    length (filter (\<lambda>l. l \<noteq> -1) labels) < 2 * card (set labels - {-1}) \<longrightarrow>
      calculate_metrics sil db ch X labels ''silhouette_score'' = Some (FloatVal 0) \<and>
      calculate_metrics sil db ch X labels ''davies_bouldin_score'' = Some PosInfVal \<and>
      calculate_metrics sil db ch X labels ''calinski_harabasz_score'' = Some (FloatVal 0)) \<and>
   calculate_metrics sil db ch X labels ''n_clusters'' =
     Some (IntVal (int (card (set labels - {-1})))) \<and>
   calculate_metrics sil db ch X labels ''n_noise'' = Some (IntVal (int (count_list labels (-1)))) \<and>
   calculate_metrics sil db ch X labels ''noise_ratio'' =
     Some (if labels = [] then IntVal 0
           else FloatVal (real (count_list labels (-1)) / real (length labels))) \<and>
   {''n_clusters'', ''n_noise'', ''noise_ratio'', ''silhouette_score'',
    ''davies_bouldin_score'', ''calinski_harabasz_score''} \<subseteq> dom (calculate_metrics sil db ch X labels)"
  by (auto simp: calculate_metrics_def Let_def n_clusters_of_card mask_sum_valid n_noise_of_def)

text \<open>
  Four rows, one cluster and one outlier; the three metrics would return 0.7, 0.3 and 40
  had they been called.
\<close>

theorem calculate_metrics_sentinels_and_counts_witness:
  "card (set [0, 0, 0, -1 :: int] - {-1}) < 2 \<and>
   calculate_metrics (\<lambda>X l. Some (7 / 10)) (\<lambda>X l. Some (3 / 10)) (\<lambda>X l. Some 40)
      (replicate 4 [0]) [0, 0, 0, -1] ''silhouette_score'' = Some (FloatVal 0) \<and>
   calculate_metrics (\<lambda>X l. Some (7 / 10)) (\<lambda>X l. Some (3 / 10)) (\<lambda>X l. Some 40)
      (replicate 4 [0]) [0, 0, 0, -1] ''davies_bouldin_score'' = Some PosInfVal \<and>
   calculate_metrics (\<lambda>X l. Some (7 / 10)) (\<lambda>X l. Some (3 / 10)) (\<lambda>X l. Some 40)
      (replicate 4 [0]) [0, 0, 0, -1] ''calinski_harabasz_score'' = Some (FloatVal 0) \<and>
   calculate_metrics (\<lambda>X l. Some (7 / 10)) (\<lambda>X l. Some (3 / 10)) (\<lambda>X l. Some 40)
      (replicate 4 [0]) [0, 0, 0, -1] ''n_clusters'' = Some (IntVal 1) \<and>
   calculate_metrics (\<lambda>X l. Some (7 / 10)) (\<lambda>X l. Some (3 / 10)) (\<lambda>X l. Some 40)
      (replicate 4 [0]) [0, 0, 0, -1] ''n_noise'' = Some (IntVal 1) \<and>
   calculate_metrics (\<lambda>X l. Some (7 / 10)) (\<lambda>X l. Some (3 / 10)) (\<lambda>X l. Some 40)
      (replicate 4 [0]) [0, 0, 0, -1] ''noise_ratio'' = Some (FloatVal (1 / 4))"
proof -
  have c: "card (set [0, 0, 0, -1 :: int] - {-1}) = 1"
    by simp
  from calculate_metrics_sentinels_and_counts
    [of "[0, 0, 0, -1]" "\<lambda>X l. Some (7 / 10)" "\<lambda>X l. Some (3 / 10)" "\<lambda>X l. Some 40"
        "replicate 4 [0]"]
  show ?thesis unfolding c by simp
qed

subsection \<open>Label Normalizer\<close>

lemma length_masked_assign:
  "length bs = length arr \<Longrightarrow> length (masked_assign arr bs v) = length arr"
  by (simp add: masked_assign_def)

lemma nth_masked_assign:
  "length bs = length arr \<Longrightarrow> i < length arr \<Longrightarrow>
   masked_assign arr bs v ! i = (if bs ! i then v else arr ! i)"
  by (simp add: masked_assign_def)

lemma relabel_loop_spec:
  assumes "sorted vs" and "distinct vs" and "length (normalized_labels st) = length labels"
  shows "length (normalized_labels (relabel_loop labels vs st)) = length labels \<and>
         new_label (relabel_loop labels vs st) = new_label st + int (length vs) \<and>
         (\<forall>i < length labels.
            normalized_labels (relabel_loop labels vs st) ! i =
              (if labels ! i \<in> set vs
               then new_label st + int (card {u \<in> set vs. u < labels ! i})
               else normalized_labels st ! i))"
  using assms
proof (induction vs arbitrary: st)
  case Nil
  then show ?case by simp
next
  case (Cons v vs)
  let ?st' = "\<lparr>normalized_labels =
          masked_assign (normalized_labels st) (map (\<lambda>l. l = v) labels) (new_label st),
        label_mapping = (label_mapping st)(v \<mapsto> new_label st),
        new_label = new_label st + 1\<rparr>"
  from Cons.prems have sv: "sorted vs" and dv: "distinct vs" and nv: "v \<notin> set vs"
    and lt: "\<forall>u \<in> set vs. v < u"
    by (auto simp: less_le)
  have len: "length (normalized_labels ?st') = length labels"
    using Cons.prems(3) by (simp add: length_masked_assign)
  note IH = Cons.IH [OF sv dv len]
  have "normalized_labels (relabel_loop labels (v # vs) st) ! i =
              (if labels ! i \<in> set (v # vs)
               then new_label st + int (card {u \<in> set (v # vs). u < labels ! i})
               else normalized_labels st ! i)" if i: "i < length labels" for i
  proof -
    from IH i have r: "normalized_labels (relabel_loop labels vs ?st') ! i =
        (if labels ! i \<in> set vs
         then new_label ?st' + int (card {u \<in> set vs. u < labels ! i})
         else normalized_labels ?st' ! i)"
      by blast
    have cur: "normalized_labels ?st' ! i = (if labels ! i = v then new_label st else normalized_labels st ! i)"
      using i Cons.prems(3) by (simp add: nth_masked_assign)
    show ?thesis
    proof (cases "labels ! i = v")
      case True
      have "{u \<in> set (v # vs). u < v} = {}" using lt by auto
      with True nv r cur show ?thesis by simp
    next
      case False
      show ?thesis
      proof (cases "labels ! i \<in> set vs")
        case True
        with lt have "v < labels ! i" by blast
        then have "{u \<in> set (v # vs). u < labels ! i} = insert v {u \<in> set vs. u < labels ! i}"
          by auto
        moreover have "v \<notin> {u \<in> set vs. u < labels ! i}" using nv by simp
        ultimately have "card {u \<in> set (v # vs). u < labels ! i} = Suc (card {u \<in> set vs. u < labels ! i})"
          by simp
        with True r show ?thesis by simp
      next
        case F2: False
        with False r cur show ?thesis by simp
      qed
    qed
  qed
  with IH show ?case by simp
qed

lemma valid_sorted_props:
  "sorted (valid_sorted labels)" "distinct (valid_sorted labels)"
  "set (valid_sorted labels) = set labels - {-1}"
  "length (valid_sorted labels) = card (set labels - {-1})"
proof -
  show "sorted (valid_sorted labels)" by (simp add: valid_sorted_def)
  show d: "distinct (valid_sorted labels)" by (simp add: valid_sorted_def np_unique_def)
  show s: "set (valid_sorted labels) = set labels - {-1}"
    by (auto simp: valid_sorted_def np_unique_def)
  from distinct_card [OF d] s show "length (valid_sorted labels) = card (set labels - {-1})"
    by simp
qed

lemma normalize_cluster_labels_map:
  "normalize_cluster_labels labels =
     map (\<lambda>l. if l = -1 then 1 + int (card (set labels - {-1}))
               else 1 + int (card {u \<in> set labels - {-1}. u < l})) labels"
proof -
  let ?vs = "valid_sorted labels"
  let ?init = "\<lparr>normalized_labels = labels, label_mapping = Map.empty, new_label = 1\<rparr>"
  let ?st = "relabel_loop labels ?vs ?init"
  have spec: "length (normalized_labels ?st) = length labels \<and>
         new_label ?st = new_label ?init + int (length ?vs) \<and>
         (\<forall>i < length labels.
            normalized_labels ?st ! i =
              (if labels ! i \<in> set ?vs
               then new_label ?init + int (card {u \<in> set ?vs. u < labels ! i})
               else normalized_labels ?init ! i))"
    by (rule relabel_loop_spec) (simp_all add: valid_sorted_props)
  then have len: "length (normalized_labels ?st) = length labels"
    and nl: "new_label ?st = 1 + int (card (set labels - {-1}))"
    and nth: "\<And>i. i < length labels \<Longrightarrow> normalized_labels ?st ! i =
              (if labels ! i \<noteq> -1
               then 1 + int (card {u \<in> set labels - {-1}. u < labels ! i})
               else -1)"
    by (auto simp: valid_sorted_props)
  have unf: "normalize_cluster_labels labels =
      (if list_ex (\<lambda>b. b) (map (\<lambda>l. l = -1) labels)
       then masked_assign (normalized_labels ?st) (map (\<lambda>l. l = -1) labels) (new_label ?st)
       else normalized_labels ?st)"
    by (simp add: normalize_cluster_labels_def valid_sorted_def Let_def)
  show ?thesis
  proof (rule nth_equalityI)
    show "length (normalize_cluster_labels labels) = length (map (\<lambda>l. if l = -1 then 1 + int (card (set labels - {-1}))
               else 1 + int (card {u \<in> set labels - {-1}. u < l})) labels)"
      by (simp add: unf len length_masked_assign)
  next
    fix i assume "i < length (normalize_cluster_labels labels)"
    then have i: "i < length labels" by (simp add: unf len length_masked_assign split: if_splits)
    show "normalize_cluster_labels labels ! i = map (\<lambda>l. if l = -1 then 1 + int (card (set labels - {-1}))
               else 1 + int (card {u \<in> set labels - {-1}. u < l})) labels ! i"
    proof (cases "labels ! i = -1")
      case True
      with i have "-1 \<in> set labels" by (metis nth_mem)
      then have "list_ex (\<lambda>b. b) (map (\<lambda>l. l = -1) labels)" by (auto simp: list_ex_iff)
      with True i show ?thesis by (simp add: unf nth_masked_assign len nl)
    next
      case False
      with i show ?thesis by (simp add: unf nth_masked_assign len nth)
    qed
  qed
qed

lemma rank_image:
  "sorted vs \<Longrightarrow> distinct vs \<Longrightarrow>
   (\<lambda>v. card {u \<in> set vs. u < v}) ` set vs = {..<length vs}"
proof (induction vs)
  case Nil
  show ?case by simp
next
  case (Cons v vs)
  from Cons.prems have sv: "sorted vs" and dv: "distinct vs" and nv: "v \<notin> set vs"
    and lt: "\<forall>u \<in> set vs. v < u"
    by (auto simp: less_le)
  have h0: "card {u \<in> set (v # vs). u < v} = 0"
  proof -
    have "{u \<in> set (v # vs). u < v} = {}" using lt by auto
    then show ?thesis by simp
  qed
  have hS: "card {u \<in> set (v # vs). u < w} = Suc (card {u \<in> set vs. u < w})"
    if "w \<in> set vs" for w
  proof -
    from that lt have "v < w" by blast
    then have "{u \<in> set (v # vs). u < w} = insert v {u \<in> set vs. u < w}" by auto
    moreover have "v \<notin> {u \<in> set vs. u < w}" using nv by simp
    ultimately show ?thesis by simp
  qed
  have "(\<lambda>w. card {u \<in> set (v # vs). u < w}) ` set vs =
        Suc ` ((\<lambda>w. card {u \<in> set vs. u < w}) ` set vs)"
    using hS by (auto simp: image_iff)
  also have "\<dots> = Suc ` {..<length vs}"
    using Cons.IH [OF sv dv] by simp
  finally have A: "(\<lambda>w. card {u \<in> set (v # vs). u < w}) ` set vs = Suc ` {..<length vs}" .
  have "(\<lambda>w. card {u \<in> set (v # vs). u < w}) ` set (v # vs) =
        insert (card {u \<in> set (v # vs). u < v})
          ((\<lambda>w. card {u \<in> set (v # vs). u < w}) ` set vs)"
    by (simp only: list.set image_insert)
  also have "\<dots> = insert 0 (Suc ` {..<length vs})"
    by (simp only: h0 A)
  also have "\<dots> = {..<length (v # vs)}"
    by (simp add: lessThan_Suc_eq_insert_0)
  finally show ?case .
qed

lemma shift_image: "(\<lambda>n. 1 + int n) ` {..<k} = {1..int k}"
proof (intro equalityI subsetI)
  fix x assume "x \<in> (\<lambda>n. 1 + int n) ` {..<k}"
  then show "x \<in> {1..int k}" by auto
next
  fix x assume "x \<in> {1..int k}"
  then have "x = 1 + int (nat (x - 1))" and "nat (x - 1) < k" by auto
  then show "x \<in> (\<lambda>n. 1 + int n) ` {..<k}" by blast
qed

lemma normalize_cluster_labels_set:
  "set (normalize_cluster_labels labels) = {1..int (card (set labels))}"
proof -
  let ?S = "set labels - {-1}"
  let ?k = "card ?S"
  let ?f = "\<lambda>l. if l = -1 then 1 + int ?k else 1 + int (card {u \<in> ?S. u < l})"
  have "(\<lambda>v. card {u \<in> set (valid_sorted labels). u < v}) ` set (valid_sorted labels) =
      {..<length (valid_sorted labels)}"
    by (rule rank_image) (simp_all add: valid_sorted_props)
  then have r: "(\<lambda>v. card {u \<in> ?S. u < v}) ` ?S = {..<?k}"
    by (simp add: valid_sorted_props)
  have "?f ` ?S = (\<lambda>v. 1 + int (card {u \<in> ?S. u < v})) ` ?S"
    by (rule image_cong) auto
  also have "\<dots> = (\<lambda>n. 1 + int n) ` ((\<lambda>v. card {u \<in> ?S. u < v}) ` ?S)"
    by (simp add: image_image)
  also have "\<dots> = {1..int ?k}"
    unfolding r by (rule shift_image)
  finally have img: "?f ` ?S = {1..int ?k}" .
  have s: "set (normalize_cluster_labels labels) = ?f ` set labels"
    by (simp add: normalize_cluster_labels_map)
  show ?thesis
  proof (cases "-1 \<in> set labels")
    case True
    then have ins: "insert (-1) ?S = set labels" by auto
    have "Suc ?k = card (set labels)"
      by (rule card_Suc_Diff1) (simp_all add: True)
    then have k: "1 + int ?k = int (card (set labels))" by simp
    have "?f ` set labels = ?f ` insert (-1) ?S"
      by (simp only: ins)
    also have "\<dots> = insert (?f (-1)) (?f ` ?S)"
      by (rule image_insert)
    also have "\<dots> = insert (1 + int ?k) {1..int ?k}"
      by (simp only: img) simp
    also have "\<dots> = {1..1 + int ?k}" by auto
    finally show ?thesis by (simp only: s k)
  next
    case False
    then have "?S = set labels" by auto
    with img have "?f ` set labels = {1..int (card (set labels))}" by simp
    then show ?thesis by (simp only: s)
  qed
qed

text \<open>
  Claim C4. Every non-outlier label is mapped to 1 plus the number of distinct non-outlier
  labels below it (so the new numbers follow the ascending order of the original values),
  the outlier sentinel \<open>-1\<close> to 1 plus the number of distinct non-outlier labels; the
  labels of the result are exactly the consecutive integers from 1 on; \<open>[1,2,3,-1]\<close>
  becomes \<open>[1,2,3,4]\<close> and \<open>[5,5,2,-1,2]\<close> becomes \<open>[2,2,1,3,1]\<close>.
\<close>

theorem normalize_cluster_labels_ranks:
  "normalize_cluster_labels labels =
     map (\<lambda>l. if l = -1 then 1 + int (card (set labels - {-1}))
               else 1 + int (card {u \<in> set labels - {-1}. u < l})) labels \<and>
   set (normalize_cluster_labels labels) = {1..int (card (set labels))} \<and>
   normalize_cluster_labels [1, 2, 3, -1] = [1, 2, 3, 4] \<and>
   normalize_cluster_labels [5, 5, 2, -1, 2] = [2, 2, 1, 3, 1]"
proof -
  have a: "normalize_cluster_labels [1, 2, 3, -1] = [1, 2, 3, 4]"
    by (simp add: normalize_cluster_labels_def np_unique_def masked_assign_def)
  have b: "normalize_cluster_labels [5, 5, 2, -1, 2] = [2, 2, 1, 3, 1]"
    by (simp add: normalize_cluster_labels_def np_unique_def masked_assign_def)
  from normalize_cluster_labels_map normalize_cluster_labels_set a b show ?thesis
    by blast
qed


lemma relabel_loop_heap_pure:
  assumes "la \<noteq> oa" and "oa < length h"
  shows "relabel_loop_heap la oa vs h mp n =
     (let st = relabel_loop (h ! la) vs
                 \<lparr>normalized_labels = h ! oa, label_mapping = mp, new_label = n\<rparr>
      in (h[oa := normalized_labels st], label_mapping st, new_label st))"
  using assms
proof (induction vs arbitrary: h mp n)
  case Nil
  then show ?case by simp
next
  case (Cons v vs)
  let ?h1 = "h[oa := masked_assign (h ! oa) (map (\<lambda>l. l = v) (h ! la)) n]"
  have la: "?h1 ! la = h ! la" using Cons.prems by simp
  have oa: "?h1 ! oa = masked_assign (h ! oa) (map (\<lambda>l. l = v) (h ! la)) n"
    using Cons.prems by simp
  have len: "oa < length ?h1" using Cons.prems by simp
  have "relabel_loop_heap la oa (v # vs) h mp n =
        relabel_loop_heap la oa vs ?h1 (mp(v \<mapsto> n)) (n + 1)"
    by simp
  also have "\<dots> =
     (let st = relabel_loop (?h1 ! la) vs
                 \<lparr>normalized_labels = ?h1 ! oa, label_mapping = mp(v \<mapsto> n), new_label = n + 1\<rparr>
      in (?h1[oa := normalized_labels st], label_mapping st, new_label st))"
    using Cons.prems(1) len by (rule Cons.IH)
  also have "\<dots> =
     (let st = relabel_loop (h ! la) (v # vs)
                 \<lparr>normalized_labels = h ! oa, label_mapping = mp, new_label = n\<rparr>
      in (h[oa := normalized_labels st], label_mapping st, new_label st))"
    unfolding la oa by (simp add: Let_def)
  finally show ?case .
qed

text \<open>
  Claim C10. \<^verbatim>\<open>normalize_cluster_labels\<close> leaves its input array, and every array
  allocated before the call, with the contents it had; the array it returns is a new
  allocation, different from the input, and holds the normalized labels.
\<close>

theorem normalize_cluster_labels_frame:
  assumes "labels < length h"
  shows "snd (normalize_cluster_labels_heap h labels) ! labels = h ! labels \<and>
         (\<forall>a < length h. snd (normalize_cluster_labels_heap h labels) ! a = h ! a) \<and>
         fst (normalize_cluster_labels_heap h labels) \<noteq> labels \<and>
         fst (normalize_cluster_labels_heap h labels) = length h \<and>
         length (snd (normalize_cluster_labels_heap h labels)) = length h + 1 \<and>
         snd (normalize_cluster_labels_heap h labels) ! fst (normalize_cluster_labels_heap h labels) =
           normalize_cluster_labels (h ! labels)"
proof -
  let ?oa = "length h"
  let ?h1 = "h @ [h ! labels]"
  let ?vs = "sort (filter (\<lambda>l. l \<noteq> -1) (np_unique (h ! labels)))"
  let ?st = "relabel_loop (h ! labels) ?vs
                 \<lparr>normalized_labels = h ! labels, label_mapping = Map.empty, new_label = 1\<rparr>"
  have neq: "labels \<noteq> ?oa" using assms by simp
  have h1la: "?h1 ! labels = h ! labels" using assms by (simp add: nth_append)
  have h1oa: "?h1 ! ?oa = h ! labels" by simp
  have loop: "relabel_loop_heap labels ?oa ?vs ?h1 Map.empty 1 =
      (?h1[?oa := normalized_labels ?st], label_mapping ?st, new_label ?st)"
    using relabel_loop_heap_pure [of labels ?oa ?h1 ?vs Map.empty 1] neq
    by (simp add: h1la Let_def)
  let ?h2 = "?h1[?oa := normalized_labels ?st]"
  have h2la: "?h2 ! labels = h ! labels" using assms by (simp add: nth_append)
  have res: "normalize_cluster_labels_heap h labels =
      (if list_ex (\<lambda>b. b) (map (\<lambda>l. l = -1) (h ! labels))
       then (?oa, ?h2[?oa := masked_assign (?h2 ! ?oa) (map (\<lambda>l. l = -1) (h ! labels)) (new_label ?st)])
       else (?oa, ?h2))"
    unfolding normalize_cluster_labels_heap_def array_copy_def Let_def prod.case loop h2la
    by simp
  have pure: "normalize_cluster_labels (h ! labels) =
      (if list_ex (\<lambda>b. b) (map (\<lambda>l. l = -1) (h ! labels))
       then masked_assign (normalized_labels ?st) (map (\<lambda>l. l = -1) (h ! labels)) (new_label ?st)
       else normalized_labels ?st)"
    by (simp add: normalize_cluster_labels_def Let_def)
  show ?thesis
    using assms by (simp add: res pure nth_append)
qed

text \<open>A store of two arrays; the second one is normalized into a third.\<close>

theorem normalize_cluster_labels_frame_witness:
  "(1::nat) < length [[9, 9], [5, 5, 2, -1, 2 :: int]] \<and>
   normalize_cluster_labels_heap [[9, 9], [5, 5, 2, -1, 2]] 1 =
     (2, [[9, 9], [5, 5, 2, -1, 2], [2, 2, 1, 3, 1]]) \<and>
   snd (normalize_cluster_labels_heap [[9, 9], [5, 5, 2, -1, 2]] 1) ! 1 = [5, 5, 2, -1, 2] \<and>
   fst (normalize_cluster_labels_heap [[9, 9], [5, 5, 2, -1, 2]] 1) \<noteq> 1"
proof -
  have l: "(1::nat) < length [[9, 9], [5, 5, 2, -1, 2 :: int]]" by simp
  have v: "normalize_cluster_labels_heap [[9, 9], [5, 5, 2, -1, 2]] 1 =
     (2, [[9, 9], [5, 5, 2, -1, 2], [2, 2, 1, 3, 1]])"
    by (simp add: normalize_cluster_labels_heap_def array_copy_def np_unique_def
        masked_assign_def)
  from normalize_cluster_labels_frame [OF l] l v show ?thesis by simp
qed

subsection \<open>Price cleaning\<close>

lemma numbers_head:
  "findall_numbers ut s = (case first_match ut s of None \<Rightarrow> [] | Some (t, r) \<Rightarrow> t # findall_numbers ut r)"
  by (rule findall_numbers.simps)


lemma clean_price_first_match:
  "clean_price ut (Text s) =
     (case first_match ut (py_strip ut (py_replace_char comma (py_replace_char rupee s))) of
        None \<Rightarrow> 0 | Some (t, r) \<Rightarrow> py_float ut t)"
  by (subst clean_price.simps, subst numbers_head) (simp split: option.splits)


lemma number_token_shape:
  assumes "number_token ut t"
  obtains ds where "ds \<noteq> []" "list_all (is_digit ut) ds" "t = ds"
  | ds fs where "ds \<noteq> []" "list_all (is_digit ut) ds" "list_all (is_digit ut) fs"
      "t = ds @ dot # fs"
proof -
  let ?ds = "takeWhile (is_digit ut) t" and ?r = "dropWhile (is_digit ut) t"
  have t: "t = ?ds @ ?r" by simp
  have d: "list_all (is_digit ut) ?ds"
    by (auto simp: list_all_iff dest: set_takeWhileD)
  from assms have ne: "?ds \<noteq> []" and r: "?r = [] \<or> (hd ?r = dot \<and> list_all (is_digit ut) (tl ?r))"
    by (simp_all add: number_token_def Let_def)
  from r show ?thesis
  proof
    assume "?r = []"
    with t have "t = ?ds" by (metis append_Nil2)
    with ne d that(1) show ?thesis by blast
  next
    assume a: "hd ?r = dot \<and> list_all (is_digit ut) (tl ?r)"
    show ?thesis
    proof (cases ?r)
      case Nil
      with t have "t = ?ds" by (metis append_Nil2)
      with ne d that(1) show ?thesis by blast
    next
      case (Cons x xs)
      with a have "x = dot" and "list_all (is_digit ut) xs" by simp_all
      with Cons t have "t = ?ds @ dot # xs" by metis
      with ne d \<open>list_all (is_digit ut) xs\<close> that(2) show ?thesis by blast
    qed
  qed
qed


lemma takeWhile_all: "list_all P xs \<Longrightarrow> takeWhile P xs = xs"
  by (simp add: list_all_iff)


lemma dropWhile_all: "list_all P xs \<Longrightarrow> dropWhile P xs = []"
  by (simp add: list_all_iff)


lemma first_match_alt:
  "first_match ut s =
     (let rest = dropWhile (\<lambda>c. \<not> is_digit ut c) s
      in if rest = [] then None
         else (let r1 = dropWhile (is_digit ut) rest;
                   dot_part = (if r1 \<noteq> [] \<and> hd r1 = dot then [dot] else []);
                   r2 = drop (length dot_part) r1
               in Some (takeWhile (is_digit ut) rest @ dot_part @ takeWhile (is_digit ut) r2,
                        dropWhile (is_digit ut) r2)))"
proof (cases "dropWhile (\<lambda>c. \<not> is_digit ut c) s")
  case Nil
  show ?thesis by (simp add: first_match_def Let_def Nil del: takeWhile.simps dropWhile.simps)
next
  case rest: (Cons c cs)
  show ?thesis
  proof (cases "dropWhile (is_digit ut) (c # cs)")
    case Nil
    show ?thesis by (simp add: first_match_def Let_def rest Nil del: takeWhile.simps dropWhile.simps)
  next
    case (Cons d ds)
    show ?thesis by (simp add: first_match_def Let_def rest Cons del: takeWhile.simps dropWhile.simps)
  qed
qed

lemma skip_none: "xs \<noteq> [] \<Longrightarrow> list_all P xs \<Longrightarrow> dropWhile (\<lambda>c. \<not> P c) (xs @ ys) = xs @ ys"
  by (cases xs) simp_all


lemma first_match_digits:
  assumes "ds \<noteq> []" and "list_all (is_digit ut) ds"
  shows "first_match ut ds = Some (ds, [])"
proof -
  have a: "dropWhile (\<lambda>c. \<not> is_digit ut c) ds = ds"
    using skip_none [OF assms, of "[]"] by simp
  have b: "takeWhile (is_digit ut) ds = ds" and c: "dropWhile (is_digit ut) ds = []"
    using assms(2) by (simp_all add: takeWhile_all dropWhile_all)
  show ?thesis
    by (simp add: first_match_alt Let_def a b c assms(1))
qed

lemma first_match_fraction:
  assumes "ds \<noteq> []" and "list_all (is_digit ut) ds" and "list_all (is_digit ut) fs"
    and "\<not> is_digit ut dot"
  shows "first_match ut (ds @ dot # fs) = Some (ds @ dot # fs, [])"
proof -
  have a: "dropWhile (\<lambda>c. \<not> is_digit ut c) (ds @ dot # fs) = ds @ dot # fs"
    using assms(1,2) by (rule skip_none)
  have b: "takeWhile (is_digit ut) (ds @ dot # fs) = ds"
    using assms(2,4) by (simp add: list_all_iff)
  have c: "dropWhile (is_digit ut) (ds @ dot # fs) = dot # fs"
    using assms(2,4) by (simp add: list_all_iff)
  have d: "takeWhile (is_digit ut) fs = fs" and e: "dropWhile (is_digit ut) fs = []"
    using assms(3) by (simp_all add: takeWhile_all dropWhile_all)
  show ?thesis
    by (simp add: first_match_alt Let_def a b c d e del: takeWhile_append dropWhile_append)
qed

lemma first_match_number_token:
  assumes "number_token ut t" and "\<not> is_digit ut dot"
  shows "first_match ut t = Some (t, [])"
  using assms(1)
proof (cases rule: number_token_shape)
  case (1 ds)
  then show ?thesis by (simp add: first_match_digits)
next
  case (2 ds fs)
  then show ?thesis using assms(2) by (simp add: first_match_fraction)
qed

lemma takeWhile_digits: "list_all P (takeWhile P xs)"
  by (auto simp: list_all_iff dest: set_takeWhileD)

lemma first_match_token_clean:
  assumes fm: "first_match ut s = Some (t, r)" and nd: "\<not> is_digit ut dot"
  shows "number_token ut t"
proof -
  define rest where "rest = dropWhile (\<lambda>c. \<not> is_digit ut c) s"
  define ip where "ip = takeWhile (is_digit ut) rest"
  define r1 where "r1 = dropWhile (is_digit ut) rest"
  define dp where "dp = (if r1 \<noteq> [] \<and> hd r1 = dot then [dot] else [])"
  define fp where "fp = takeWhile (is_digit ut) (drop (length dp) r1)"
  have alt: "first_match ut s =
      (if rest = [] then None else Some (ip @ dp @ fp, dropWhile (is_digit ut) (drop (length dp) r1)))"
    unfolding first_match_alt Let_def rest_def ip_def r1_def dp_def fp_def ..
  with fm have ne: "rest \<noteq> []" and t: "t = ip @ dp @ fp"
    by (auto split: if_splits)
  have "is_digit ut (hd rest)"
    using hd_dropWhile [of "\<lambda>c. \<not> is_digit ut c" s] ne unfolding rest_def by blast
  with ne have ipne: "ip \<noteq> []" unfolding ip_def by (cases rest) simp_all
  have ipd: "\<forall>c \<in> set ip. is_digit ut c"
    unfolding ip_def by (auto dest: set_takeWhileD)
  have fpd: "\<forall>c \<in> set fp. is_digit ut c"
    unfolding fp_def by (auto dest: set_takeWhileD)
  have r1h: "r1 \<noteq> [] \<Longrightarrow> \<not> is_digit ut (hd r1)"
    unfolding r1_def by (rule hd_dropWhile)
  show ?thesis
  proof (cases "r1 \<noteq> [] \<and> hd r1 = dot")
    case True
    then have t': "t = ip @ dot # fp" by (simp add: t dp_def)
    have a: "takeWhile (is_digit ut) (ip @ dot # fp) = ip"
      using ipd nd by simp
    have b: "dropWhile (is_digit ut) (ip @ dot # fp) = dot # fp"
      using ipd nd by simp
    have "list_all (is_digit ut) fp" using fpd by (simp add: list_all_iff)
    then show ?thesis
      unfolding number_token_def Let_def t' a b using ipne by simp
  next
    case False
    then have dp: "dp = []" by (simp add: dp_def)
    have "fp = []"
    proof (cases r1)
      case Nil
      then show ?thesis by (simp add: fp_def dp)
    next
      case (Cons x xs)
      with r1h have "\<not> is_digit ut x" by simp
      with Cons show ?thesis by (simp add: fp_def dp)
    qed
    with dp have t': "t = ip" by (simp add: t)
    have a: "takeWhile (is_digit ut) ip = ip" and b: "dropWhile (is_digit ut) ip = []"
      using ipd by simp_all
    show ?thesis
      unfolding number_token_def Let_def t' a b using ipne by simp
  qed
qed


lemma number_token_chars:
  assumes "number_token ut t"
  shows "t \<noteq> [] \<and> is_digit ut (hd t) \<and> (is_digit ut (last t) \<or> last t = dot) \<and>
         (\<forall>c \<in> set t. is_digit ut c \<or> c = dot)"
  using assms
proof (cases rule: number_token_shape)
  case (1 ds)
  then show ?thesis
    by (cases ds) (auto simp: list_all_iff)
next
  case (2 ds fs)
  then show ?thesis
    by (cases ds) (auto simp: list_all_iff last_append)
qed

lemma py_strip_id:
  assumes "s \<noteq> []" and "\<not> whitespace ut (hd s)" and "\<not> whitespace ut (last s)"
  shows "py_strip ut s = s"
proof -
  from assms(1,2) have a: "dropWhile (whitespace ut) s = s" by (cases s) simp_all
  from assms(1) have "butlast s @ [last s] = s" by (rule append_butlast_last_id)
  then have "rev s = rev (butlast s @ [last s])" by (rule arg_cong [OF sym])
  then have r: "rev s = last s # rev (butlast s)" by simp
  have b: "dropWhile (whitespace ut) (rev s) = rev s"
    by (subst (1 2) r) (simp add: assms(3))
  show ?thesis by (simp add: py_strip_def a b)
qed

lemma cleaning_keeps_number_token:
  assumes "tables_ok ut" and "number_token ut t"
  shows "py_strip ut (py_replace_char comma (py_replace_char rupee t)) = t"
proof -
  from assms(1) have nr: "\<not> is_digit ut rupee" and nc: "\<not> is_digit ut comma"
    and ws: "\<And>c. is_digit ut c \<Longrightarrow> \<not> whitespace ut c" and wd: "\<not> whitespace ut dot"
    by (auto simp: tables_ok_def is_digit_def)
  from number_token_chars [OF assms(2)]
  have ne: "t \<noteq> []" and h: "is_digit ut (hd t)" and l: "is_digit ut (last t) \<or> last t = dot"
    and cs: "\<forall>c \<in> set t. is_digit ut c \<or> c = dot"
    by blast+
  have "\<forall>c \<in> set t. c \<noteq> rupee"
    using cs nr by (auto simp: rupee_def dot_def)
  then have a: "py_replace_char rupee t = t"
    by (simp add: py_replace_char_def)
  have "\<forall>c \<in> set t. c \<noteq> comma"
    using cs nc by (auto simp: comma_def dot_def)
  then have b: "py_replace_char comma t = t"
    by (simp add: py_replace_char_def)
  have "py_strip ut t = t"
    using ne h l ws wd by (intro py_strip_id) auto
  with a b show ?thesis by simp
qed

lemma tables_ok_digits:
  assumes "tables_ok ut"
  shows "\<not> is_digit ut dot" "\<not> is_digit ut comma" "\<not> is_digit ut rupee"
    and "\<And>c. 48 \<le> c \<Longrightarrow> c \<le> 57 \<Longrightarrow> is_digit ut c"
    and "\<And>c. 48 \<le> c \<Longrightarrow> c \<le> 57 \<Longrightarrow> decimal ut c = Some (c - 48)"
    and "\<And>c. 48 \<le> c \<Longrightarrow> c \<le> 57 \<Longrightarrow> \<not> whitespace ut c"
  using assms by (auto simp: tables_ok_def is_digit_def)

lemma clean_price_number_token:
  assumes "tables_ok ut" and "number_token ut t"
  shows "clean_price ut (Text t) = py_float ut t"
proof -
  have "first_match ut t = Some (t, [])"
    using assms(2) tables_ok_digits(1) [OF assms(1)] by (rule first_match_number_token)
  then show ?thesis
    by (simp add: clean_price_first_match cleaning_keeps_number_token [OF assms] del: clean_price.simps)
qed

lemma example_value:
  assumes "tables_ok ut"
  shows "clean_price ut (Text (rupee # ascii ''1,234.50'')) = 1234.5"
proof -
  note d = tables_ok_digits [OF assms]
  let ?t = "[49, 50, 51, 52, 46, 53, 48] :: pystr"
  have r: "py_replace_char comma (py_replace_char rupee (rupee # ascii ''1,234.50'')) = ?t"
    by (simp add: py_replace_char_def ascii_def rupee_def comma_def)
  have s: "py_strip ut ?t = ?t"
    by (rule py_strip_id) (simp_all add: d)
  have tw: "takeWhile (is_digit ut) ?t = [49, 50, 51, 52]"
    using d(1) by (simp add: d dot_def)
  have dw: "dropWhile (is_digit ut) ?t = [46, 53, 48]"
    using d(1) by (simp add: d dot_def)
  have cn: "number_token ut ?t"
    unfolding number_token_def Let_def tw dw by (simp add: d dot_def)
  have fm: "first_match ut ?t = Some (?t, [])"
    using cn d(1) by (rule first_match_number_token)
  have v: "py_float ut ?t = 1234.5"
    unfolding py_float_def Let_def tw dw by (simp add: digits_value_def d)
  show ?thesis
    unfolding clean_price_first_match r s fm by (simp add: v)
qed

lemma leading_digit_numeral_is_token:
  assumes sp: "spec_clean_numeric_string ut t" and hd: "t \<noteq> []" "is_digit ut (hd t)"
    and nd: "\<not> is_digit ut dot"
  shows "number_token ut t"
proof -
  define ip where "ip = takeWhile (is_digit ut) t"
  define r where "r = dropWhile (is_digit ut) t"
  have t: "t = ip @ r" by (simp add: ip_def r_def)
  from sp have chars: "\<forall>c \<in> set t. is_digit ut c \<or> c = dot"
    and dots: "length (filter (\<lambda>c. c = dot) t) \<le> 1"
    by (simp_all add: spec_clean_numeric_string_def list_all_iff)
  from hd have ipne: "ip \<noteq> []" unfolding ip_def by (cases t) simp_all
  have tail: "hd r = dot \<and> list_all (is_digit ut) (tl r)" if rne: "r \<noteq> []"
  proof -
    from rne obtain x xs where r: "r = x # xs" by (cases r) auto
    have "\<not> is_digit ut (hd r)" using rne unfolding r_def by (rule hd_dropWhile)
    with r have nx: "\<not> is_digit ut x" by simp
    have "x \<in> set t" by (subst t) (simp add: r)
    with chars nx have x: "x = dot" by blast
    have "length (filter (\<lambda>c. c = dot) t) =
          length (filter (\<lambda>c. c = dot) ip) + Suc (length (filter (\<lambda>c. c = dot) xs))"
      by (subst t) (simp add: r x)
    with dots have "filter (\<lambda>c. c = dot) xs = []" by simp
    then have nodot: "\<forall>c \<in> set xs. c \<noteq> dot" by (simp add: filter_empty_conv)
    have "set xs \<subseteq> set t" by (subst t) (auto simp: r)
    with chars nodot have "\<forall>c \<in> set xs. is_digit ut c" by blast
    with r x show ?thesis by (simp add: list_all_iff)
  qed
  show ?thesis
    unfolding number_token_def Let_def ip_def [symmetric] r_def [symmetric]
    using ipne tail by blast
qed

lemma token_is_leading_digit_numeral:
  assumes "number_token ut t" and nd: "\<not> is_digit ut dot"
  shows "spec_clean_numeric_string ut t \<and> t \<noteq> [] \<and> is_digit ut (hd t)"
  using assms(1)
proof (cases rule: number_token_shape)
  case (1 ds)
  then obtain c cs where ds: "ds = c # cs" by (cases ds) auto
  from 1 nd have "filter (\<lambda>c. c = dot) ds = []"
    by (auto simp: filter_empty_conv list_all_iff)
  with 1 ds show ?thesis
    by (auto simp: spec_clean_numeric_string_def list_all_iff list_ex_iff)
next
  case (2 ds fs)
  then obtain c cs where ds: "ds = c # cs" by (cases ds) auto
  from 2 nd have "filter (\<lambda>c. c = dot) ds = []" and "filter (\<lambda>c. c = dot) fs = []"
    by (auto simp: filter_empty_conv list_all_iff)
  with 2 ds show ?thesis
    by (auto simp: spec_clean_numeric_string_def list_all_iff list_ex_iff)
qed

text \<open>
  Claim C8, as amended. Cleaning a missing value gives 0.0; cleaning the rupee sign
  followed by \<^verbatim>\<open>1,234.50\<close> gives 1234.5; cleaning an already-clean numeric string that
  starts with a digit gives the number it denotes; and the first number token \<open>n\<close> that
  cleaning finds in any text \<open>s\<close> is such a string, so cleaning the token again gives the
  value cleaning \<open>s\<close> gave. Nothing is said of a numeric string that starts with a dot, nor
  of cleaning the float that was returned.
\<close>

theorem clean_price_leading_digit_numerals:
  assumes "tables_ok ut"
  shows "clean_price ut Missing = 0 \<and>
         clean_price ut (Text (rupee # ascii ''1,234.50'')) = 1234.5 \<and>
         (spec_clean_numeric_string ut t \<and> t \<noteq> [] \<and> is_digit ut (hd t) \<longrightarrow>
            clean_price ut (Text t) = py_float ut t) \<and>
         (findall_numbers ut (py_strip ut (py_replace_char comma (py_replace_char rupee s))) = n # ns \<longrightarrow>
            spec_clean_numeric_string ut n \<and> n \<noteq> [] \<and> is_digit ut (hd n) \<and>
            clean_price ut (Text s) = py_float ut n \<and>
            clean_price ut (Text n) = clean_price ut (Text s))"
proof -
  let ?c = "py_strip ut (py_replace_char comma (py_replace_char rupee s))"
  note nd = tables_ok_digits(1) [OF assms]
  have a: "clean_price ut Missing = 0" by simp
  have b: "clean_price ut (Text (rupee # ascii ''1,234.50'')) = 1234.5"
    using assms by (rule example_value)
  have c: "spec_clean_numeric_string ut t \<and> t \<noteq> [] \<and> is_digit ut (hd t) \<longrightarrow>
            clean_price ut (Text t) = py_float ut t"
  proof
    assume h: "spec_clean_numeric_string ut t \<and> t \<noteq> [] \<and> is_digit ut (hd t)"
    then have "number_token ut t"
      using nd by (intro leading_digit_numeral_is_token) simp_all
    with assms show "clean_price ut (Text t) = py_float ut t"
      by (rule clean_price_number_token)
  qed
  have d: "findall_numbers ut ?c = n # ns \<longrightarrow>
            spec_clean_numeric_string ut n \<and> n \<noteq> [] \<and> is_digit ut (hd n) \<and>
            clean_price ut (Text s) = py_float ut n \<and>
            clean_price ut (Text n) = clean_price ut (Text s)"
  proof
    assume h: "findall_numbers ut ?c = n # ns"
    then obtain r where fm: "first_match ut ?c = Some (n, r)"
      by (subst (asm) numbers_head) (auto split: option.splits)
    then have cn: "number_token ut n"
      using nd by (rule first_match_token_clean)
    then have sp: "spec_clean_numeric_string ut n \<and> n \<noteq> [] \<and> is_digit ut (hd n)"
      using nd by (rule token_is_leading_digit_numeral)
    have v: "clean_price ut (Text s) = py_float ut n"
      by (simp add: clean_price_first_match fm del: clean_price.simps)
    have "clean_price ut (Text n) = py_float ut n"
      using assms cn by (rule clean_price_number_token)
    with sp v show "spec_clean_numeric_string ut n \<and> n \<noteq> [] \<and> is_digit ut (hd n) \<and>
            clean_price ut (Text s) = py_float ut n \<and>
            clean_price ut (Text n) = clean_price ut (Text s)"
      by simp
  qed
  from a b c d show ?thesis by blast
qed

lemma tables_ok_ascii: "tables_ok ascii_tables"
  by (simp add: tables_ok_def ascii_tables_def rupee_def comma_def dot_def)

lemma ex_tokens:
  "findall_numbers ascii_tables
     (py_strip ascii_tables (py_replace_char comma (py_replace_char rupee (ascii ''Rs 1,234.50 / 2'')))) =
   [ascii ''1234.50'', ascii ''2'']"
  by (simp add: findall_numbers.simps first_match_def py_strip_def py_replace_char_def
      ascii_def rupee_def comma_def dot_def is_digit_def ascii_tables_def Let_def)

text \<open>
  With the ASCII tables: \<^verbatim>\<open>1234.50\<close> is a clean numeric string that starts with a digit
  and gives 1234.5, and so does the text \<^verbatim>\<open>Rs 1,234.50 / 2\<close>, whose first number token it
  is.
\<close>

theorem clean_price_leading_digit_numerals_witness:
  "tables_ok ascii_tables \<and>
   clean_price ascii_tables Missing = 0 \<and>
   clean_price ascii_tables (Text (rupee # ascii ''1,234.50'')) = 1234.5 \<and>
   spec_clean_numeric_string ascii_tables (ascii ''1234.50'') \<and>
   is_digit ascii_tables (hd (ascii ''1234.50'')) \<and>
   py_float ascii_tables (ascii ''1234.50'') = 1234.5 \<and>
   clean_price ascii_tables (Text (ascii ''1234.50'')) = 1234.5 \<and>
   findall_numbers ascii_tables
     (py_strip ascii_tables
        (py_replace_char comma (py_replace_char rupee (ascii ''Rs 1,234.50 / 2'')))) =
     [ascii ''1234.50'', ascii ''2''] \<and>
   clean_price ascii_tables (Text (ascii ''Rs 1,234.50 / 2'')) = 1234.5"
proof -
  have sp: "spec_clean_numeric_string ascii_tables (ascii ''1234.50'')"
    by (simp add: spec_clean_numeric_string_def ascii_def is_digit_def ascii_tables_def dot_def)
  have hd: "ascii ''1234.50'' \<noteq> []" "is_digit ascii_tables (hd (ascii ''1234.50''))"
    by (simp_all add: ascii_def is_digit_def ascii_tables_def)
  have v: "py_float ascii_tables (ascii ''1234.50'') = 1234.5"
    by (simp add: py_float_def digits_value_def ascii_def is_digit_def ascii_tables_def)
  from clean_price_leading_digit_numerals [OF tables_ok_ascii, of "ascii ''1234.50''"
      "ascii ''Rs 1,234.50 / 2''" "ascii ''1234.50''" "[ascii ''2'']"]
    tables_ok_ascii sp hd v ex_tokens
  show ?thesis by (simp del: clean_price.simps)
qed

text \<open>
  Claim C8 as stated fails. \<^verbatim>\<open>.5\<close> is an already-clean numeric string and denotes 0.5, but
  the pattern needs a leading digit and cleaning gives 5. Nor does cleaning reproduce its
  own result: the text \<^verbatim>\<open>10000000000000000\<close> is cleaned to \<open>10^16\<close>, a float that Python
  prints as \<^verbatim>\<open>1e+16\<close>, and that text is cleaned to 1.
\<close>

theorem clean_price_idempotent_counterexample:
  "spec_clean_numeric_string ascii_tables (ascii ''.5'') \<and>
   py_float ascii_tables (ascii ''.5'') = 1 / 2 \<and>
   clean_price ascii_tables (Text (ascii ''.5'')) = 5 \<and>
   clean_price ascii_tables (Text (ascii ''10000000000000000'')) = 10 ^ 16 \<and>
   clean_price ascii_tables (Text (ascii ''1e+16'')) = 1"
proof -
  have a: "spec_clean_numeric_string ascii_tables (ascii ''.5'')"
    by (simp add: spec_clean_numeric_string_def ascii_def ascii_tables_def is_digit_def dot_def)
  have b: "py_float ascii_tables (ascii ''.5'') = 1 / 2"
    by (simp add: py_float_def digits_value_def ascii_def is_digit_def ascii_tables_def)
  have c: "clean_price ascii_tables (Text (ascii ''.5'')) = 5"
    by (simp add: findall_numbers.simps first_match_def py_strip_def py_replace_char_def
        ascii_def rupee_def comma_def dot_def is_digit_def ascii_tables_def Let_def
        py_float_def digits_value_def)
  have d: "clean_price ascii_tables (Text (ascii ''10000000000000000'')) = 10 ^ 16"
    by (simp add: findall_numbers.simps first_match_def py_strip_def py_replace_char_def
        ascii_def rupee_def comma_def dot_def is_digit_def ascii_tables_def Let_def
        py_float_def digits_value_def)
  have e: "clean_price ascii_tables (Text (ascii ''1e+16'')) = 1"
    by (simp add: findall_numbers.simps first_match_def py_strip_def py_replace_char_def
        ascii_def rupee_def comma_def dot_def is_digit_def ascii_tables_def Let_def
        py_float_def digits_value_def)
  from a b c d e show ?thesis by blast
qed

subsection \<open>Feature Builder\<close>

lemma sum_shift:
  fixes a s :: real
  shows "sum_list (map (\<lambda>x. (x - a) / s) xs) = (sum_list xs - real (length xs) * a) / s"
  by (induction xs) (simp_all add: field_simps add_divide_distrib diff_divide_distrib)

lemma sum_sq_scale:
  fixes a s :: real
  shows "sum_list (map (\<lambda>x. ((x - a) / s)\<^sup>2) xs) = sum_list (map (\<lambda>x. (x - a)\<^sup>2) xs) / s\<^sup>2"
  by (induction xs) (simp_all add: power_divide add_divide_distrib)

lemma variance_standardize:
  assumes "0 < variance_of xs"
  shows "variance_of (standardize xs) = 1"
proof -
  define n where "n = real (length xs)"
  define m where "m = mean_of xs"
  define s where "s = sqrt (variance_of xs)"
  have n: "n \<noteq> 0"
  proof
    assume "n = 0"
    then have "variance_of xs = 0" by (simp add: variance_of_def n_def)
    with assms show False by simp
  qed
  have s2: "s\<^sup>2 = variance_of xs" using assms by (simp add: s_def)
  have st: "standardize xs = map (\<lambda>x. (x - m) / s) xs"
    by (simp add: standardize_def m_def s_def)
  have "sum_list (standardize xs) = (sum_list xs - n * m) / s"
    by (simp add: st sum_shift n_def)
  also have "sum_list xs - n * m = 0" using n by (simp add: mean_of_def m_def n_def)
  finally have "sum_list (standardize xs) = 0" by simp
  then have m0: "mean_of (standardize xs) = 0" by (simp add: mean_of_def)
  have len: "real (length (standardize xs)) = n" by (simp add: st n_def)
  have "variance_of (standardize xs) =
        sum_list (map (\<lambda>x. x\<^sup>2) (standardize xs)) / n"
    by (simp add: variance_of_def m0 len)
  also have "sum_list (map (\<lambda>x. x\<^sup>2) (standardize xs)) =
        sum_list (map (\<lambda>x. ((x - m) / s)\<^sup>2) xs)"
    by (simp add: st o_def)
  also have "\<dots> = sum_list (map (\<lambda>x. (x - m)\<^sup>2) xs) / s\<^sup>2"
    by (rule sum_sq_scale)
  also have "sum_list (map (\<lambda>x. (x - m)\<^sup>2) xs) / s\<^sup>2 / n = variance_of xs / s\<^sup>2"
    by (simp add: variance_of_def m_def n_def)
  also have "\<dots> = 1" using assms by (simp add: s2)
  finally show ?thesis .
qed

lemma mask_select_map: "mask_select (map P xs) xs = filter P xs"
  by (induction xs) (simp_all add: mask_select_def)

lemma mask_sum_map: "mask_sum (map P xs) = length (filter P xs)"
  by (induction xs) (simp_all add: mask_sum_def)

lemma finite_values_Some: "finite_values col = Some r \<Longrightarrow> col = map Finite r"
proof (induction col arbitrary: r)
  case Nil
  then show ?case by simp
next
  case (Cons x col)
  then show ?case by (cases x) auto
qed

lemma finite_values_map: "finite_values (map Finite r) = Some r"
  by (induction r) simp_all

lemma np_var_Finite: "np_var (map Finite r) = (if r = [] then NaN else Finite (variance_of r))"
  by (cases r) (simp_all add: np_var_def finite_values_map)

lemma kept_column:
  assumes "float_gt (np_var col) c"
  obtains r where "col = map Finite r" and "c < variance_of r"
proof -
  from assms obtain x xs where fv: "finite_values col = Some (x # xs)"
    by (auto simp: np_var_def split: option.splits list.splits)
  with assms have "c < variance_of (x # xs)" by (simp add: np_var_def)
  moreover from fv have "col = map Finite (x # xs)" by (rule finite_values_Some)
  ultimately show ?thesis using that by blast
qed

lemma guard_finite:
  "\<not> isnan x \<Longrightarrow> \<not> isinf x \<Longrightarrow> is_finite x"
  by (cases x) simp_all

lemma nan_to_num_finite: "is_finite (nan_to_num x)"
  by (cases x) simp_all

lemma prepare_features_result:
  assumes "prepare_features to_numeric get_dummies scaler df = Inr (X_scaled, names)"
  obtains X Y where
    "scaler (filter (\<lambda>col. float_gt (np_var col) (1 / 10 ^ 8)) X) = Inr Y"
    "filter (\<lambda>col. float_gt (np_var col) (1 / 10 ^ 8)) X \<noteq> []"
    "X_scaled = (if list_ex (list_ex isnan) Y \<or> list_ex (list_ex isinf) Y
                 then map (map nan_to_num) Y else Y)"
proof -
  from assms obtain X fn where fm: "feature_matrix to_numeric get_dummies df = Inr (X, fn)"
    by (auto simp: prepare_features_def split: sum.splits)
  define K where "K = filter (\<lambda>col. float_gt (np_var col) (1 / 10 ^ 8)) X"
  have sel: "mask_select (map (\<lambda>v. float_gt v (1 / 10 ^ 8)) (map np_var X)) X = K"
    using mask_select_map [of "\<lambda>col. float_gt (np_var col) (1 / 10 ^ 8)" X]
    by (simp add: K_def o_def)
  have cnt: "mask_sum (map (\<lambda>v. float_gt v (1 / 10 ^ 8)) (map np_var X)) = length K"
    using mask_sum_map [of "\<lambda>col. float_gt (np_var col) (1 / 10 ^ 8)" X]
    by (simp add: K_def o_def)
  have unf: "prepare_features to_numeric get_dummies scaler df =
     (if K = [] then Inl ZeroVariance
      else (case scaler K of
              Inl e \<Rightarrow> Inl e
            | Inr Y \<Rightarrow>
                Inr (if list_ex (list_ex isnan) Y \<or> list_ex (list_ex isinf) Y
                     then map (map nan_to_num) Y else Y,
                     mask_select (map (\<lambda>v. float_gt v (1 / 10 ^ 8)) (map np_var X)) fn)))"
    unfolding prepare_features_def fm sum.case prod.case Let_def sel cnt
    by simp
  from assms have ne: "K \<noteq> []" unfolding unf by (auto split: if_splits)
  from assms ne obtain Y where Y: "scaler K = Inr Y"
    and xs: "X_scaled = (if list_ex (list_ex isnan) Y \<or> list_ex (list_ex isinf) Y
                 then map (map nan_to_num) Y else Y)"
    unfolding unf by (auto split: sum.splits)
  from Y ne xs show ?thesis using that unfolding K_def by blast
qed

text \<open>
  Claim C9. When \<^verbatim>\<open>prepare_features\<close> returns, every entry of the returned matrix is
  finite, whatever the scaler computed: an entry that is NaN or infinite after scaling is
  replaced by 0.0. And when the scaler computes the documented transform on the columns
  the variance filter keeps, every returned column has variance 1, hence none at or below
  \<open>1e-8\<close>.
\<close>

theorem prepare_features_finite_unit_variance:
  assumes "prepare_features to_numeric get_dummies scaler df = Inr (X_scaled, feature_names)"
  shows "(\<forall>col \<in> set X_scaled. \<forall>x \<in> set col. is_finite x) \<and>
         (scaler_standardizes scaler \<longrightarrow>
            (\<forall>col \<in> set X_scaled.
               np_var col = Finite 1 \<and> float_gt (np_var col) (1 / 10 ^ 8)))"
proof -
  from assms obtain X Y where
    Y: "scaler (filter (\<lambda>col. float_gt (np_var col) (1 / 10 ^ 8)) X) = Inr Y"
    and ne: "filter (\<lambda>col. float_gt (np_var col) (1 / 10 ^ 8)) X \<noteq> []"
    and xs: "X_scaled = (if list_ex (list_ex isnan) Y \<or> list_ex (list_ex isinf) Y
                 then map (map nan_to_num) Y else Y)"
    by (rule prepare_features_result)
  have fin: "\<forall>col \<in> set X_scaled. \<forall>x \<in> set col. is_finite x"
  proof (cases "list_ex (list_ex isnan) Y \<or> list_ex (list_ex isinf) Y")
    case True
    then show ?thesis by (auto simp: xs nan_to_num_finite)
  next
    case False
    then show ?thesis by (auto simp: xs list_ex_iff intro: guard_finite)
  qed
  have var: "\<forall>col \<in> set X_scaled. np_var col = Finite 1 \<and> float_gt (np_var col) (1 / 10 ^ 8)"
    if st: "scaler_standardizes scaler"
  proof -
    define K where "K = filter (\<lambda>col. float_gt (np_var col) (1 / 10 ^ 8)) X"
    define R where "R = map (\<lambda>col. the (finite_values col)) K"
    have k: "col = map Finite (the (finite_values col)) \<and>
             1 / 10 ^ 8 < variance_of (the (finite_values col))" if "col \<in> set K" for col
    proof -
      from that have "float_gt (np_var col) (1 / 10 ^ 8)" by (simp add: K_def)
      then obtain r where r: "col = map Finite r" "1 / 10 ^ 8 < variance_of r"
        by (rule kept_column)
      then show ?thesis by (simp add: finite_values_map)
    qed
    have KR: "K = map (map Finite) R"
      unfolding R_def using k by (simp add: map_idI)
    have Rv: "\<forall>r \<in> set R. 1 / 10 ^ 8 < variance_of r"
      unfolding R_def using k by simp
    have Rne: "R \<noteq> []" using ne KR by (auto simp: K_def)
    from st Rne Rv have "scaler (map (map Finite) R) = Inr (map (\<lambda>r. map Finite (standardize r)) R)"
      unfolding scaler_standardizes_def by blast
    moreover from Y have "scaler (map (map Finite) R) = Inr Y"
      unfolding K_def [symmetric] KR .
    ultimately have Yeq: "Y = map (\<lambda>r. map Finite (standardize r)) R"
      by simp
    have nonan: "\<not> (list_ex (list_ex isnan) Y \<or> list_ex (list_ex isinf) Y)"
      by (auto simp: Yeq list_ex_iff)
    then have "X_scaled = Y" by (simp add: xs)
    moreover have "np_var (map Finite (standardize r)) = Finite 1" if "r \<in> set R" for r
    proof -
      from that Rv have v: "0 < variance_of r" by fastforce
      then have "r \<noteq> []" by (auto simp: variance_of_def)
      then have "standardize r \<noteq> []" by (simp add: standardize_def)
      with variance_standardize [OF v] show ?thesis by (simp add: np_var_Finite)
    qed
    ultimately show ?thesis by (auto simp: Yeq)
  qed
  from fin var show ?thesis by blast
qed

lemma exact_scaler_standardizes: "scaler_standardizes exact_scaler"
  by (simp add: scaler_standardizes_def exact_scaler_def finite_values_map o_def)

lemma sqrt_quarter: "sqrt (1 / 4) = 1 / 2"
  by (simp add: real_sqrt_divide)

lemma example_exact:
  "prepare_features example_to_numeric example_get_dummies exact_scaler example_profiles =
     Inr ([[Finite (-1), Finite 1], [Finite 1, Finite (-1)], [Finite (-1), Finite 1]],
          [''avg_price'', ''cat_Home'', ''cat_Toys''])"
  by (simp add: prepare_features_def feature_matrix_def example_profiles_def
      example_to_numeric_def example_get_dummies_def exact_scaler_def Let_def
      np_var_def variance_of_def mean_of_def standardize_def mask_sum_def mask_select_def
      sqrt_quarter power2_eq_square)

lemma example_nan:
  "prepare_features example_to_numeric example_get_dummies
     (\<lambda>X. Inr (map (map (\<lambda>x. NaN)) X)) example_profiles =
     Inr ([[Finite 0, Finite 0], [Finite 0, Finite 0], [Finite 0, Finite 0]],
          [''avg_price'', ''cat_Home'', ''cat_Toys''])"
  by (simp add: prepare_features_def feature_matrix_def example_profiles_def
      example_to_numeric_def example_get_dummies_def Let_def
      np_var_def variance_of_def mean_of_def mask_sum_def mask_select_def power2_eq_square)

text \<open>
  The constant discount column is dropped and the three others are standardized to
  \<open>-1, 1\<close>; with a scaler that returns only NaN, every entry is repaired to 0.
\<close>

theorem prepare_features_finite_unit_variance_witness:
  "prepare_features example_to_numeric example_get_dummies exact_scaler example_profiles =
     Inr ([[Finite (-1), Finite 1], [Finite 1, Finite (-1)], [Finite (-1), Finite 1]],
          [''avg_price'', ''cat_Home'', ''cat_Toys'']) \<and>
   scaler_standardizes exact_scaler \<and>
   np_var [Finite (-1), Finite 1] = Finite 1 \<and>
   float_gt (np_var [Finite 1, Finite (-1)]) (1 / 10 ^ 8) \<and>
   is_finite (Finite (-1)) \<and>
   prepare_features example_to_numeric example_get_dummies
     (\<lambda>X. Inr (map (map (\<lambda>x. NaN)) X)) example_profiles =
     Inr ([[Finite 0, Finite 0], [Finite 0, Finite 0], [Finite 0, Finite 0]],
          [''avg_price'', ''cat_Home'', ''cat_Toys'']) \<and>
   is_finite (Finite 0)"
proof -
  note a = prepare_features_finite_unit_variance [OF example_exact]
  note b = prepare_features_finite_unit_variance [OF example_nan]
  from a exact_scaler_standardizes have
    "\<forall>col \<in> set [[Finite (-1), Finite 1], [Finite 1, Finite (-1)], [Finite (-1), Finite 1]].
       np_var col = Finite 1 \<and> float_gt (np_var col) (1 / 10 ^ 8)"
    by blast
  then have v: "np_var [Finite (-1), Finite 1] = Finite 1"
    and g: "float_gt (np_var [Finite 1, Finite (-1)]) (1 / 10 ^ 8)"
    by simp_all
  from a have f: "is_finite (Finite (-1))" by simp
  from b have z: "is_finite (Finite 0)" by simp
  from example_exact exact_scaler_standardizes v g f example_nan z show ?thesis by blast
qed

end
